theory Spec2Isabelle
  imports Main "HOL-Library.AList"
begin

chapter \<open>The model: data and operations, as the source has them\<close>

section \<open>Rate limiter (src/lib/rate-limit.ts, class RateLimiter)\<close>

text \<open>
  The limiter keeps one entry per identifier in a JavaScript \<open>Map\<close>; only lookups and
  stores by key matter to \<open>check\<close>, so the store is a map from identifiers to entries. Times are
  milliseconds (\<open>Date.now()\<close>), passed in as \<open>now\<close>.
\<close>

record RateLimitEntry =
  count :: int
  resetTime :: int

type_synonym rl_store = "string \<rightharpoonup> RateLimitEntry"

text \<open>The object returned by \<open>check\<close>; its \<open>resetTime\<close> field is \<open>res_resetTime\<close> here.\<close>

record CheckResult =
  success :: bool
  remaining :: int
  res_resetTime :: int

text \<open>The first branch of \<open>check\<close>: a new entry replaces whatever was stored.\<close>

definition check_new :: "rl_store \<Rightarrow> int \<Rightarrow> string \<Rightarrow> int \<Rightarrow> int \<Rightarrow> CheckResult \<times> rl_store" where
  "check_new store now identifier maxRequests windowMs =
     (let newEntry = \<lparr>count = 1, resetTime = now + windowMs\<rparr>
      in (\<lparr>success = True, remaining = maxRequests - 1, res_resetTime = resetTime newEntry\<rparr>,
          store(identifier \<mapsto> newEntry)))"

definition check :: "rl_store \<Rightarrow> int \<Rightarrow> string \<Rightarrow> int \<Rightarrow> int \<Rightarrow> CheckResult \<times> rl_store" where
  "check store now identifier maxRequests windowMs =
     (case store identifier of
        None \<Rightarrow> check_new store now identifier maxRequests windowMs
      | Some entry \<Rightarrow>
          if resetTime entry < now then check_new store now identifier maxRequests windowMs
          else
            (let entry' = entry\<lparr>count := count entry + 1\<rparr>
             in (\<lparr>success = (count entry' \<le> maxRequests),
                  remaining = max 0 (maxRequests - count entry'),
                  res_resetTime = resetTime entry'\<rparr>,
                 store(identifier \<mapsto> entry'))))"

text \<open>A caller that issues one \<open>check\<close> per listed time, for the same identifier and policy.\<close>

fun checks :: "rl_store \<Rightarrow> string \<Rightarrow> int \<Rightarrow> int \<Rightarrow> int list \<Rightarrow> CheckResult list \<times> rl_store" where
  "checks store identifier maxRequests windowMs [] = ([], store)"
| "checks store identifier maxRequests windowMs (t # ts) =
     (let (r, store') = check store t identifier maxRequests windowMs;
          (rs, store'') = checks store' identifier maxRequests windowMs ts
      in (r # rs, store''))"

section \<open>Account lockout (src/lib/account-lockout.ts, lines 1-233)\<close>

record LockoutConfig =
  maxAttempts :: int
  lockoutDuration :: int
  incrementDuration :: int

definition ACCOUNT_LOCKOUT_CONFIG :: LockoutConfig where
  "ACCOUNT_LOCKOUT_CONFIG =
     \<lparr>maxAttempts = 5, lockoutDuration = 30 * 60 * 1000, incrementDuration = 5 * 60 * 1000\<rparr>"

text \<open>
  The columns of a \<open>User\<close> row that the lockout functions select and update. The column
  \<open>failedLoginAttempts\<close> is \<open>INTEGER NOT NULL DEFAULT 0\<close>, so \<open>user.failedLoginAttempts || 0\<close>
  is the column's value; \<open>lockoutUntil\<close> is a nullable timestamp, in milliseconds here.
\<close>

record User =
  user_id :: string
  failedLoginAttempts :: int
  lockoutUntil :: "int option"

type_synonym db = "string \<rightharpoonup> User"

text \<open>The returned \<open>LockoutStatus\<close>; its last two fields are \<open>lockoutUntil\<close> and \<open>lockoutDuration\<close>.\<close>

record LockoutStatus =
  isLocked :: bool
  remainingAttempts :: int
  status_lockoutUntil :: "int option"
  status_lockoutDuration :: int

datatype db_error = RecordNotFound

text \<open>
  \<open>prisma.user.update({where: {email}, data: {failedLoginAttempts, lockoutUntil}})\<close>: it
  rejects when no row has that email, and leaves every other column and row as it was.
\<close>

definition user_update :: "db \<Rightarrow> string \<Rightarrow> int \<Rightarrow> int option \<Rightarrow> db_error + db" where
  "user_update d email attempts until =
     (case d email of
        None \<Rightarrow> Inl RecordNotFound
      | Some user \<Rightarrow> Inr (d(email \<mapsto> user\<lparr>failedLoginAttempts := attempts, lockoutUntil := until\<rparr>)))"

text \<open>
  \<open>checkAccountLockout\<close>. Both \<open>new Date()\<close> reads happen with no suspension between them
  and are the one \<open>now\<close> here. The figure returned after the reset is computed from
  \<open>user\<close>, the row as it was read before the update.
\<close>

definition checkAccountLockout :: "db \<Rightarrow> int \<Rightarrow> string \<Rightarrow> db_error + (LockoutStatus \<times> db)" where
  "checkAccountLockout d now email =
     (case d email of
        None \<Rightarrow>
          Inr (\<lparr>isLocked = False, remainingAttempts = maxAttempts ACCOUNT_LOCKOUT_CONFIG,
                status_lockoutUntil = None, status_lockoutDuration = 0\<rparr>, d)
      | Some user \<Rightarrow>
          (let answer = \<lparr>isLocked = False,
                 remainingAttempts =
                   max 0 (maxAttempts ACCOUNT_LOCKOUT_CONFIG - failedLoginAttempts user),
                 status_lockoutUntil = None, status_lockoutDuration = 0\<rparr>
           in case lockoutUntil user of
                None \<Rightarrow> Inr (answer, d)
              | Some until \<Rightarrow>
                  if until > now then
                    Inr (\<lparr>isLocked = True, remainingAttempts = 0,
                          status_lockoutUntil = Some until,
                          status_lockoutDuration = lockoutDuration ACCOUNT_LOCKOUT_CONFIG\<rparr>, d)
                  else
                    (case user_update d email 0 None of
                       Inl e \<Rightarrow> Inl e
                     | Inr d' \<Rightarrow> Inr (answer, d'))))"

definition recordFailedLoginAttempt :: "db \<Rightarrow> int \<Rightarrow> string \<Rightarrow> db_error + (LockoutStatus \<times> db)" where
  "recordFailedLoginAttempt d now email =
     (case d email of
        None \<Rightarrow>
          Inr (\<lparr>isLocked = False, remainingAttempts = maxAttempts ACCOUNT_LOCKOUT_CONFIG - 1,
                status_lockoutUntil = None, status_lockoutDuration = 0\<rparr>, d)
      | Some user \<Rightarrow>
          (let currentAttempts = failedLoginAttempts user + 1;
               shouldLock = (currentAttempts \<ge> maxAttempts ACCOUNT_LOCKOUT_CONFIG);
               excessAttempts = currentAttempts - maxAttempts ACCOUNT_LOCKOUT_CONFIG;
               duration = (if shouldLock
                           then lockoutDuration ACCOUNT_LOCKOUT_CONFIG
                                  + excessAttempts * incrementDuration ACCOUNT_LOCKOUT_CONFIG
                           else 0);
               until = (if shouldLock then Some (now + duration) else None)
           in case user_update d email currentAttempts until of
                Inl e \<Rightarrow> Inl e
              | Inr d' \<Rightarrow>
                  Inr (\<lparr>isLocked = shouldLock,
                        remainingAttempts =
                          max 0 (maxAttempts ACCOUNT_LOCKOUT_CONFIG - currentAttempts),
                        status_lockoutUntil = until,
                        status_lockoutDuration = duration\<rparr>, d')))"


text \<open>A login path that records one failure for the same email at each listed time.\<close>

fun recordFailures :: "db \<Rightarrow> string \<Rightarrow> int list \<Rightarrow> db_error + (LockoutStatus list \<times> db)" where
  "recordFailures d email [] = Inr ([], d)"
| "recordFailures d email (t # ts) =
     (case recordFailedLoginAttempt d t email of
        Inl e \<Rightarrow> Inl e
      | Inr (s, d') \<Rightarrow>
          (case recordFailures d' email ts of
             Inl e \<Rightarrow> Inl e
           | Inr (ss, d'') \<Rightarrow> Inr (s # ss, d'')))"

section \<open>In-memory cache (class InMemoryCache, src/lib/account-lockout.ts from line 234)\<close>

text \<open>
  \<open>ttl\<close>, \<open>defaultTTL\<close>, \<open>maxSize\<close> and \<open>expiresAt\<close> are JavaScript numbers: besides the
  finite values (milliseconds and counts, integers here) they can be \<open>Infinity\<close>,
  \<open>-Infinity\<close> and \<open>NaN\<close>. \<open>a < b\<close> is false whenever one side is \<open>NaN\<close>, and
  \<open>a >= b\<close> likewise.
\<close>

datatype jsnumber = Finite int | Infinity | NegInfinity | NaN

fun js_less :: "jsnumber \<Rightarrow> jsnumber \<Rightarrow> bool" where
  "js_less NaN b = False"
| "js_less a NaN = False"
| "js_less (Finite a) (Finite b) = (a < b)"
| "js_less (Finite a) Infinity = True"
| "js_less (Finite a) NegInfinity = False"
| "js_less Infinity b = False"
| "js_less NegInfinity NegInfinity = False"
| "js_less NegInfinity b = True"

text \<open>\<open>a >= b\<close>.\<close>

definition js_ge :: "jsnumber \<Rightarrow> jsnumber \<Rightarrow> bool" where
  "js_ge a b = (js_less b a \<or> (a = b \<and> a \<noteq> NaN))"

text \<open>A number is falsy, as the left operand of \<open>||\<close>, when it is \<open>0\<close> or \<open>NaN\<close>.\<close>

definition js_falsy :: "jsnumber \<Rightarrow> bool" where
  "js_falsy a = (a = Finite 0 \<or> a = NaN)"

text \<open>\<open>Date.now() + x\<close> and \<open>x * 1000\<close>: the infinities and \<open>NaN\<close> stay what they are.\<close>

definition plus_now :: "int \<Rightarrow> jsnumber \<Rightarrow> jsnumber" where
  "plus_now now x = (case x of Finite t \<Rightarrow> Finite (now + t) | Infinity \<Rightarrow> Infinity
                     | NegInfinity \<Rightarrow> NegInfinity | NaN \<Rightarrow> NaN)"

definition times_1000 :: "jsnumber \<Rightarrow> jsnumber" where
  "times_1000 x = (case x of Finite t \<Rightarrow> Finite (t * 1000) | Infinity \<Rightarrow> Infinity
                   | NegInfinity \<Rightarrow> NegInfinity | NaN \<Rightarrow> NaN)"

text \<open>
  The cache is a JavaScript \<open>Map\<close>, which iterates in insertion order: a list of
  key-entry pairs with distinct keys. \<open>Map.get\<close> is \<^const>\<open>map_of\<close>; \<open>Map.set\<close> is
  \<^const>\<open>AList.update\<close> (an existing key keeps its place, a new key goes last);
  \<open>Map.delete\<close> is \<^const>\<open>AList.delete\<close>; \<open>Map.size\<close> is \<^const>\<open>length\<close>.
  The field \<open>value\<close> of an entry is \<open>val\<close> here, the field \<open>size\<close> of the statistics
  \<open>stats_size\<close>.
\<close>

record 'v CacheEntry =
  val :: 'v
  expiresAt :: jsnumber

record CacheStats =
  hits :: nat
  misses :: nat
  stats_size :: nat

record 'v InMemoryCache =
  cache :: "(string \<times> 'v CacheEntry) list"
  stats :: CacheStats
  defaultTTL :: jsnumber
  maxSize :: jsnumber

text \<open>The constructor: the default TTL is given in seconds and stored in milliseconds.\<close>

definition new_InMemoryCache :: "jsnumber \<Rightarrow> jsnumber \<Rightarrow> 'v InMemoryCache" where
  "new_InMemoryCache defaultTTL_seconds maxSize_arg =
     \<lparr>cache = [], stats = \<lparr>hits = 0, misses = 0, stats_size = 0\<rparr>,
      defaultTTL = times_1000 defaultTTL_seconds, maxSize = maxSize_arg\<rparr>"

text \<open>\<open>get\<close>, at \<open>Date.now() = now\<close>; the expiry test is \<open>Date.now() > entry.expiresAt\<close>.\<close>

definition get :: "'v InMemoryCache \<Rightarrow> int \<Rightarrow> string \<Rightarrow> 'v option \<times> 'v InMemoryCache" where
  "get c now key =
     (case map_of (cache c) key of
        None \<Rightarrow> (None, c\<lparr>stats := (stats c)\<lparr>misses := misses (stats c) + 1\<rparr>\<rparr>)
      | Some entry \<Rightarrow>
          if js_less (expiresAt entry) (Finite now) then
            (let cache' = AList.delete key (cache c)
             in (None, c\<lparr>cache := cache',
                          stats := (stats c)\<lparr>misses := misses (stats c) + 1,
                                            stats_size := length cache'\<rparr>\<rparr>))
          else (Some (val entry), c\<lparr>stats := (stats c)\<lparr>hits := hits (stats c) + 1\<rparr>\<rparr>))"

text \<open>
  The loop of \<open>evictOldest\<close>: it is entered with \<open>oldestKey = null\<close> (\<open>None\<close> here) and
  \<open>oldestTime = Infinity\<close>, and an entry replaces them when
  \<open>entry.expiresAt < oldestTime\<close>. An entry whose \<open>expiresAt\<close> is \<open>Infinity\<close> or \<open>NaN\<close>
  never does.
\<close>

fun oldest_scan :: "(string \<times> 'v CacheEntry) list \<Rightarrow> string option \<Rightarrow> jsnumber \<Rightarrow> string option" where
  "oldest_scan [] oldestKey oldestTime = oldestKey"
| "oldest_scan ((key, entry) # rest) oldestKey oldestTime =
     (if js_less (expiresAt entry) oldestTime
      then oldest_scan rest (Some key) (expiresAt entry)
      else oldest_scan rest oldestKey oldestTime)"

text \<open>The final test is \<open>if (oldestKey)\<close>: \<open>null\<close> and the empty string are both falsy.\<close>

definition evictOldest :: "(string \<times> 'v CacheEntry) list \<Rightarrow> (string \<times> 'v CacheEntry) list" where
  "evictOldest entries =
     (case oldest_scan entries None Infinity of
        None \<Rightarrow> entries
      | Some oldestKey \<Rightarrow> if oldestKey = [] then entries else AList.delete oldestKey entries)"

text \<open>
  The expression \<open>ttl || this.defaultTTL\<close> of \<open>set\<close>: the default when \<open>ttl\<close> is
  omitted, \<open>0\<close> or \<open>NaN\<close>, otherwise \<open>ttl\<close> as it is given.
\<close>

definition effective_ttl :: "'v InMemoryCache \<Rightarrow> jsnumber option \<Rightarrow> jsnumber" where
  "effective_ttl c ttl =
     (case ttl of None \<Rightarrow> defaultTTL c | Some t \<Rightarrow> if js_falsy t then defaultTTL c else t)"

text \<open>
  \<open>set(key, value, ttl?)\<close>: the effective TTL is added to \<open>Date.now()\<close>, which is in
  milliseconds; the eviction test is \<open>this.cache.size >= this.maxSize\<close> together with
  \<open>Map.has\<close>, which does not look at expiry.
\<close>

definition set_entry :: "'v InMemoryCache \<Rightarrow> int \<Rightarrow> string \<Rightarrow> 'v \<Rightarrow> jsnumber option \<Rightarrow> 'v InMemoryCache" where
  "set_entry c now key value ttl =
     (let expires = plus_now now (effective_ttl c ttl);
          cache1 = (if js_ge (Finite (int (length (cache c)))) (maxSize c)
                       \<and> map_of (cache c) key = None
                    then evictOldest (cache c) else cache c);
          cache2 = AList.update key \<lparr>val = value, expiresAt = expires\<rparr> cache1
      in c\<lparr>cache := cache2, stats := (stats c)\<lparr>stats_size := length cache2\<rparr>\<rparr>)"

section \<open>Circuit breaker (class CircuitBreaker, src/unnamed/part_012)\<close>

datatype CircuitState = CLOSED | OPEN | HALF_OPEN

text \<open>
  The configuration: thresholds are counts, the timeouts are milliseconds. The constructor
  takes a partial configuration and fills each numeric field with \<open>given || default\<close>,
  which also replaces a given \<open>0\<close>, and the flag with \<open>given ?? true\<close>.
\<close>

record CircuitBreakerConfig =
  failureThreshold :: nat
  resetTimeout :: nat
  successThreshold :: nat
  requestTimeout :: nat
  monitoringEnabled :: bool

record PartialConfig =
  given_failureThreshold :: "nat option"
  given_resetTimeout :: "nat option"
  given_successThreshold :: "nat option"
  given_requestTimeout :: "nat option"
  given_monitoringEnabled :: "bool option"

text \<open>
  \<open>CircuitBreakerStats\<close>: the first five fields copy the breaker's own fields of the same
  name (prefixed \<open>stats_\<close> here) whenever \<open>updateStats\<close> runs.
\<close>

record CircuitBreakerStats =
  stats_state :: CircuitState
  stats_failureCount :: nat
  stats_successCount :: nat
  stats_lastFailureTime :: "int option"
  stats_lastSuccessTime :: "int option"
  totalRequests :: nat
  totalFailures :: nat
  totalSuccesses :: nat

record CircuitBreaker =
  state :: CircuitState
  failureCount :: nat
  successCount :: nat
  lastFailureTime :: "int option"
  lastSuccessTime :: "int option"
  nextAttemptTime :: "int option"
  breaker_stats :: CircuitBreakerStats
  config :: CircuitBreakerConfig

definition or_default :: "nat option \<Rightarrow> nat \<Rightarrow> nat" where
  "or_default given dflt = (case given of None \<Rightarrow> dflt | Some n \<Rightarrow> if n = 0 then dflt else n)"

definition new_CircuitBreaker :: "PartialConfig \<Rightarrow> CircuitBreaker" where
  "new_CircuitBreaker partial =
     \<lparr>state = CLOSED, failureCount = 0, successCount = 0,
      lastFailureTime = None, lastSuccessTime = None, nextAttemptTime = None,
      breaker_stats =
        \<lparr>stats_state = CLOSED, stats_failureCount = 0, stats_successCount = 0,
         stats_lastFailureTime = None, stats_lastSuccessTime = None,
         totalRequests = 0, totalFailures = 0, totalSuccesses = 0\<rparr>,
      config =
        \<lparr>failureThreshold = or_default (given_failureThreshold partial) 5,
         resetTimeout = or_default (given_resetTimeout partial) 60000,
         successThreshold = or_default (given_successThreshold partial) 2,
         requestTimeout = or_default (given_requestTimeout partial) 30000,
         monitoringEnabled =
           (case given_monitoringEnabled partial of None \<Rightarrow> True | Some m \<Rightarrow> m)\<rparr>\<rparr>"

text \<open>
  The three transitions. \<open>now\<close> is the \<open>Date.now()\<close> read inside \<open>transitionToOpen\<close>; the
  console messages written when monitoring is enabled are not part of the state.
\<close>

definition transitionToOpen :: "CircuitBreaker \<Rightarrow> int \<Rightarrow> CircuitBreaker" where
  "transitionToOpen b now =
     b\<lparr>state := OPEN, nextAttemptTime := Some (now + int (resetTimeout (config b))),
       successCount := 0\<rparr>"

definition transitionToClosed :: "CircuitBreaker \<Rightarrow> CircuitBreaker" where
  "transitionToClosed b =
     b\<lparr>state := CLOSED, failureCount := 0, successCount := 0, nextAttemptTime := None\<rparr>"

definition transitionToHalfOpen :: "CircuitBreaker \<Rightarrow> CircuitBreaker" where
  "transitionToHalfOpen b = b\<lparr>state := HALF_OPEN, successCount := 0\<rparr>"

definition updateStats :: "CircuitBreaker \<Rightarrow> CircuitBreaker" where
  "updateStats b =
     b\<lparr>breaker_stats :=
         \<lparr>stats_state = state b, stats_failureCount = failureCount b,
          stats_successCount = successCount b,
          stats_lastFailureTime = lastFailureTime b,
          stats_lastSuccessTime = lastSuccessTime b,
          totalRequests = totalRequests (breaker_stats b),
          totalFailures = totalFailures (breaker_stats b),
          totalSuccesses = totalSuccesses (breaker_stats b)\<rparr>\<rparr>"

text \<open>
  \<open>onSuccess\<close> and \<open>onFailure\<close> run when the raced promise settles, at time \<open>now\<close>; the
  clock reads of the handler and of the transition it calls are one instant.
\<close>

definition onSuccess :: "CircuitBreaker \<Rightarrow> int \<Rightarrow> CircuitBreaker" where
  "onSuccess b now =
     (let b1 = b\<lparr>failureCount := 0, successCount := successCount b + 1,
                 lastSuccessTime := Some now,
                 breaker_stats := (breaker_stats b)
                   \<lparr>totalSuccesses := totalSuccesses (breaker_stats b) + 1\<rparr>\<rparr>;
          b2 = (if state b1 = HALF_OPEN
                then (if successCount b1 \<ge> successThreshold (config b1)
                      then transitionToClosed b1 else b1)
                else b1)
      in updateStats b2)"

definition onFailure :: "CircuitBreaker \<Rightarrow> int \<Rightarrow> CircuitBreaker" where
  "onFailure b now =
     (let b1 = b\<lparr>failureCount := failureCount b + 1, lastFailureTime := Some now,
                 breaker_stats := (breaker_stats b)
                   \<lparr>totalFailures := totalFailures (breaker_stats b) + 1\<rparr>\<rparr>;
          b2 = (if state b1 = CLOSED
                then (if failureCount b1 \<ge> failureThreshold (config b1)
                      then transitionToOpen b1 now else b1)
                else if state b1 = HALF_OPEN then transitionToOpen b1 now
                else b1)
      in updateStats b2)"

text \<open>
  The protected operation \<open>fn\<close>. Calling it acts on the dependency it talks to (the
  world \<open>'w\<close>) and yields a promise, which resolves or rejects after some milliseconds or
  stays pending for ever.
\<close>

datatype 'a promise = Resolves nat 'a | Rejects nat string | Pending

type_synonym ('w, 'a) operation = "'w \<Rightarrow> 'a promise \<times> 'w"

datatype breaker_error = CircuitBreakerOpenError string | Error string

text \<open>
  \<open>withTimeout\<close>: \<open>Promise.race\<close> of \<open>fn()\<close> against a timer that rejects with
  \<open>Request timeout\<close>. The result is the outcome, the milliseconds until it, and the world
  after the call. At a tie the operation, started first, wins.
\<close>

definition withTimeout :: "('w, 'a) operation \<Rightarrow> nat \<Rightarrow> 'w \<Rightarrow> (breaker_error + 'a) \<times> nat \<times> 'w" where
  "withTimeout fn timeout w =
     (case fn w of
        (Resolves d v, w') \<Rightarrow>
          if d \<le> timeout then (Inr v, d, w') else (Inl (Error ''Request timeout''), timeout, w')
      | (Rejects d msg, w') \<Rightarrow>
          if d \<le> timeout then (Inl (Error msg), d, w')
          else (Inl (Error ''Request timeout''), timeout, w')
      | (Pending, w') \<Rightarrow> (Inl (Error ''Request timeout''), timeout, w'))"

text \<open>
  \<open>execute\<close>, entered at time \<open>now\<close>. A rejected call returns before the counter of
  requests is touched and before \<open>fn\<close> is called. \<open>this.nextAttemptTime || 0\<close> is \<open>0\<close> for
  \<open>null\<close>.
\<close>

definition execute :: "CircuitBreaker \<Rightarrow> int \<Rightarrow> ('w, 'a) operation \<Rightarrow> 'w \<Rightarrow> (breaker_error + 'a) \<times> CircuitBreaker \<times> 'w" where
  "execute b now fn w =
     (if state b = OPEN \<and> now < (case nextAttemptTime b of None \<Rightarrow> 0 | Some t \<Rightarrow> t)
      then (Inl (CircuitBreakerOpenError ''Circuit breaker is OPEN''), b, w)
      else
        (let b1 = (if state b = OPEN then transitionToHalfOpen b else b);
             b2 = b1\<lparr>breaker_stats := (breaker_stats b1)
                        \<lparr>totalRequests := totalRequests (breaker_stats b1) + 1\<rparr>\<rparr>
         in case withTimeout fn (requestTimeout (config b2)) w of
              (Inr v, elapsed, w') \<Rightarrow> (Inr v, onSuccess b2 (now + int elapsed), w')
            | (Inl e, elapsed, w') \<Rightarrow> (Inl e, onFailure b2 (now + int elapsed), w')))"

text \<open>A caller that awaits one \<open>execute\<close> after another, each entered at its listed time.\<close>

fun executes :: "CircuitBreaker \<Rightarrow> 'w \<Rightarrow> (int \<times> ('w, 'a) operation) list \<Rightarrow> (breaker_error + 'a) list \<times> CircuitBreaker \<times> 'w" where
  "executes b w [] = ([], b, w)"
| "executes b w ((now, fn) # calls) =
     (case execute b now fn w of
        (r, b', w') \<Rightarrow>
          (case executes b' w' calls of (rs, b'', w'') \<Rightarrow> (r # rs, b'', w'')))"

text \<open>
  The breaker and the two mocked operations of the repository's circuit-breaker tests:
  thresholds 3 and 2, a reset timeout of one second; an operation that rejects with
  \<open>Test error\<close> and one that resolves with \<open>success\<close>. Here each settles after 5 ms, and
  the world counts the invocations.
\<close>

definition test_breaker :: CircuitBreaker where
  "test_breaker =
     new_CircuitBreaker
       \<lparr>given_failureThreshold = Some 3, given_resetTimeout = Some 1000,
        given_successThreshold = Some 2, given_requestTimeout = Some 5000,
        given_monitoringEnabled = Some False\<rparr>"

definition failing_fn :: "(nat, string) operation" where
  "failing_fn w = (Rejects 5 ''Test error'', Suc w)"

definition succeeding_fn :: "(nat, string) operation" where
  "succeeding_fn w = (Resolves 5 ''success'', Suc w)"

section \<open>Graceful shutdown (class ShutdownManager, src/unnamed/part_011)\<close>

text \<open>
  A handler is called with the signal, acts on the resources it cleans up (the world
  \<open>'w\<close>) and yields a promise; a handler that throws at once is a promise rejected after
  0 ms. \<open>timeout\<close> is optional.
\<close>

record 'w ShutdownHandler =
  name :: string
  handler :: "string \<Rightarrow> 'w \<Rightarrow> unit promise \<times> 'w"
  timeout :: "nat option"

text \<open>One entry of \<open>results\<close>: \<open>{name, success, duration, error?}\<close>.\<close>

record HandlerResult =
  result_name :: string
  result_success :: bool
  result_duration :: nat
  result_error :: "string option"

record 'w ShutdownManager =
  handlers :: "'w ShutdownHandler list"
  isShuttingDown :: bool
  defaultTimeout :: nat

definition new_ShutdownManager :: "'w ShutdownManager" where
  "new_ShutdownManager = \<lparr>handlers = [], isShuttingDown = False, defaultTimeout = 30000\<rparr>"

definition register :: "'w ShutdownManager \<Rightarrow> 'w ShutdownHandler \<Rightarrow> 'w ShutdownManager" where
  "register m h = m\<lparr>handlers := handlers m @ [h]\<rparr>"

definition unregister :: "'w ShutdownManager \<Rightarrow> string \<Rightarrow> 'w ShutdownManager" where
  "unregister m n = m\<lparr>handlers := filter (\<lambda>h. name h \<noteq> n) (handlers m)\<rparr>"

text \<open>\<open>handler.timeout || this.defaultTimeout\<close>: the default for a missing timeout and for \<open>0\<close>.\<close>

definition timeout_of :: "nat \<Rightarrow> 'w ShutdownHandler \<Rightarrow> nat" where
  "timeout_of dflt h = (case timeout h of None \<Rightarrow> dflt | Some t \<Rightarrow> if t = 0 then dflt else t)"

text \<open>
  The body of the loop in \<open>executeHandlers\<close>: the handler's promise raced against a timer
  that rejects with \<open>Timeout\<close>, the \<open>try\<close> branch pushing a success entry and the
  \<open>catch\<close> branch a failure entry with the error's message. At a tie the handler, started
  first, wins. The log lines are not modelled.
\<close>

definition run_handler :: "nat \<Rightarrow> string \<Rightarrow> 'w ShutdownHandler \<Rightarrow> 'w \<Rightarrow> HandlerResult \<times> 'w" where
  "run_handler dflt signal h w =
     (let limit = timeout_of dflt h;
          timed_out = \<lparr>result_name = name h, result_success = False,
                       result_duration = limit, result_error = Some ''Timeout''\<rparr>
      in case handler h signal w of
           (Resolves d u, w') \<Rightarrow>
             (if d \<le> limit
              then \<lparr>result_name = name h, result_success = True,
                    result_duration = d, result_error = None\<rparr>
              else timed_out, w')
         | (Rejects d msg, w') \<Rightarrow>
             (if d \<le> limit
              then \<lparr>result_name = name h, result_success = False,
                    result_duration = d, result_error = Some msg\<rparr>
              else timed_out, w')
         | (Pending, w') \<Rightarrow> (timed_out, w'))"

text \<open>The \<open>for (const handler of this.handlers)\<close> loop, pushing one entry per iteration.\<close>

fun run_handlers :: "nat \<Rightarrow> string \<Rightarrow> 'w ShutdownHandler list \<Rightarrow> 'w \<Rightarrow> HandlerResult list \<times> 'w" where
  "run_handlers dflt signal [] w = ([], w)"
| "run_handlers dflt signal (h # hs) w =
     (case run_handler dflt signal h w of
        (r, w') \<Rightarrow>
          (case run_handlers dflt signal hs w' of (rs, w'') \<Rightarrow> (r # rs, w'')))"

text \<open>\<open>executeHandlers\<close>: the results it logs in the summary, and the world it leaves.\<close>

definition executeHandlers :: "'w ShutdownManager \<Rightarrow> string \<Rightarrow> 'w \<Rightarrow> HandlerResult list \<times> 'w" where
  "executeHandlers m signal w = run_handlers (defaultTimeout m) signal (handlers m) w"

chapter \<open>The properties\<close>

section \<open>Rate limiter: one call, and a window of calls\<close>

lemma check_fresh_result:
  "store identifier = None \<Longrightarrow>
   check store now identifier maxRequests windowMs =
     (\<lparr>success = True, remaining = maxRequests - 1, res_resetTime = now + windowMs\<rparr>,
      store(identifier \<mapsto> \<lparr>count = 1, resetTime = now + windowMs\<rparr>))"
  by (simp add: check_def check_new_def)

lemma check_expired_result:
  "store identifier = Some e \<Longrightarrow> resetTime e < now \<Longrightarrow>
   check store now identifier maxRequests windowMs =
     (\<lparr>success = True, remaining = maxRequests - 1, res_resetTime = now + windowMs\<rparr>,
      store(identifier \<mapsto> \<lparr>count = 1, resetTime = now + windowMs\<rparr>))"
  by (simp add: check_def check_new_def)

lemma check_increment_result:
  "store identifier = Some e \<Longrightarrow> now \<le> resetTime e \<Longrightarrow>
   check store now identifier maxRequests windowMs =
     (\<lparr>success = (count e + 1 \<le> maxRequests),
       remaining = max 0 (maxRequests - (count e + 1)),
       res_resetTime = resetTime e\<rparr>,
      store(identifier \<mapsto> e\<lparr>count := count e + 1\<rparr>))"
  by (simp add: check_def Let_def)

lemma checks_within_window:
  "store identifier = Some e \<Longrightarrow> \<forall>t\<in>set ts. t \<le> resetTime e \<Longrightarrow>
   fst (checks store identifier m w ts) =
     map (\<lambda>k. \<lparr>success = (count e + int k \<le> m),
                remaining = max 0 (m - (count e + int k)),
                res_resetTime = resetTime e\<rparr>) [1..<Suc (length ts)]"
proof (induction ts arbitrary: store e)
  case Nil
  then show ?case by simp
next
  case (Cons t ts)
  let ?e' = "e\<lparr>count := count e + 1\<rparr>"
  let ?store' = "store(identifier \<mapsto> ?e')"
  have step: "check store t identifier m w =
      (\<lparr>success = (count e + 1 \<le> m), remaining = max 0 (m - (count e + 1)),
        res_resetTime = resetTime e\<rparr>, ?store')"
    using Cons.prems by (simp add: check_increment_result)
  have rest: "fst (checks ?store' identifier m w ts) =
     map (\<lambda>k. \<lparr>success = (count ?e' + int k \<le> m),
                remaining = max 0 (m - (count ?e' + int k)),
                res_resetTime = resetTime ?e'\<rparr>) [1..<Suc (length ts)]"
    using Cons.prems by (intro Cons.IH) simp_all
  have idx: "[1..<Suc (length (t # ts))] = 1 # map Suc [1..<Suc (length ts)]"
    by (simp add: upt_conv_Cons map_Suc_upt del: upt_Suc)
  show ?case
    unfolding idx
    by (simp add: step rest split_def Let_def comp_def add.assoc del: upt_Suc)
qed

lemma checks_from_fresh:
  assumes fresh: "store identifier = None \<or> (\<exists>e. store identifier = Some e \<and> resetTime e < t0)"
    and within: "\<forall>t\<in>set ts. t \<le> t0 + w"
  shows "fst (checks store identifier m w (t0 # ts)) =
     \<lparr>success = True, remaining = m - 1, res_resetTime = t0 + w\<rparr> #
     map (\<lambda>k. \<lparr>success = (1 + int k \<le> m), remaining = max 0 (m - (1 + int k)),
                res_resetTime = t0 + w\<rparr>) [1..<Suc (length ts)]"
proof -
  let ?e = "\<lparr>count = 1, resetTime = t0 + w\<rparr>"
  let ?store' = "store(identifier \<mapsto> ?e)"
  have first: "check store t0 identifier m w =
      (\<lparr>success = True, remaining = m - 1, res_resetTime = t0 + w\<rparr>, ?store')"
    using fresh by (auto simp: check_fresh_result check_expired_result)
  have rest: "fst (checks ?store' identifier m w ts) =
     map (\<lambda>k. \<lparr>success = (count ?e + int k \<le> m),
                remaining = max 0 (m - (count ?e + int k)),
                res_resetTime = resetTime ?e\<rparr>) [1..<Suc (length ts)]"
    using within by (intro checks_within_window) simp_all
  show ?thesis
    by (simp add: first rest split_def del: upt_Suc)
qed

lemma checks_from_fresh_nth:
  assumes fresh: "store identifier = None \<or> (\<exists>e. store identifier = Some e \<and> resetTime e < t0)"
    and within: "\<forall>t\<in>set ts. t \<le> t0 + w"
    and i: "i \<le> length ts"
  shows "fst (checks store identifier m w (t0 # ts)) ! i =
     (if i = 0 then \<lparr>success = True, remaining = m - 1, res_resetTime = t0 + w\<rparr>
      else \<lparr>success = (int i < m), remaining = max 0 (m - (1 + int i)), res_resetTime = t0 + w\<rparr>)"
proof -
  have eq: "fst (checks store identifier m w (t0 # ts)) =
     \<lparr>success = True, remaining = m - 1, res_resetTime = t0 + w\<rparr> #
     map (\<lambda>k. \<lparr>success = (1 + int k \<le> m), remaining = max 0 (m - (1 + int k)),
                res_resetTime = t0 + w\<rparr>) [1..<Suc (length ts)]"
    using fresh within by (rule checks_from_fresh)
  show ?thesis
  proof (cases i)
    case 0
    then show ?thesis unfolding eq by simp
  next
    case (Suc j)
    then have j: "j < length ts" using i by simp
    then have "[1..<Suc (length ts)] ! j = Suc j" by (simp del: upt_Suc)
    then show ?thesis unfolding eq using Suc j by (auto simp del: upt_Suc)
  qed
qed

text \<open>
  Claim C2 (as amended). A call that finds no entry, or an entry whose \<open>resetTime\<close> lies
  before \<open>now\<close>, stores \<open>{count: 1, resetTime: now + windowMs}\<close> and succeeds with
  \<open>remaining = maxRequests - 1\<close>. Any other call increments the stored count, succeeds iff
  the new count is at most \<open>maxRequests\<close>, and reports
  \<open>remaining = max(0, maxRequests - count)\<close> with the entry's own \<open>resetTime\<close>. Hence, for
  \<open>maxRequests \<ge> 1\<close>, of any run of calls made within one window (the first opening it),
  exactly the first \<open>maxRequests\<close> succeed, and every later one fails with
  \<open>remaining = 0\<close>.
\<close>

theorem rate_limiter_check_semantics:
  "((store identifier = None \<or> (\<exists>e. store identifier = Some e \<and> resetTime e < now)) \<longrightarrow>
      check store now identifier maxRequests windowMs =
        (\<lparr>success = True, remaining = maxRequests - 1, res_resetTime = now + windowMs\<rparr>,
         store(identifier \<mapsto> \<lparr>count = 1, resetTime = now + windowMs\<rparr>)))
   \<and> (\<forall>e. store identifier = Some e \<and> now \<le> resetTime e \<longrightarrow>
      check store now identifier maxRequests windowMs =
        (\<lparr>success = (count e + 1 \<le> maxRequests),
          remaining = max 0 (maxRequests - (count e + 1)),
          res_resetTime = resetTime e\<rparr>,
         store(identifier \<mapsto> e\<lparr>count := count e + 1\<rparr>)))
   \<and> (1 \<le> maxRequests
        \<and> (store identifier = None \<or> (\<exists>e. store identifier = Some e \<and> resetTime e < now))
        \<and> (\<forall>t\<in>set ts. t \<le> now + windowMs) \<longrightarrow>
      (\<forall>i \<le> length ts.
         (success (fst (checks store identifier maxRequests windowMs (now # ts)) ! i)
            \<longleftrightarrow> int i < maxRequests)
         \<and> (maxRequests \<le> int i \<longrightarrow>
              remaining (fst (checks store identifier maxRequests windowMs (now # ts)) ! i) = 0)))"
proof (intro conjI impI allI)
  assume "store identifier = None \<or> (\<exists>e. store identifier = Some e \<and> resetTime e < now)"
  then show "check store now identifier maxRequests windowMs =
        (\<lparr>success = True, remaining = maxRequests - 1, res_resetTime = now + windowMs\<rparr>,
         store(identifier \<mapsto> \<lparr>count = 1, resetTime = now + windowMs\<rparr>))"
    by (auto simp: check_fresh_result check_expired_result)
next
  fix e assume "store identifier = Some e \<and> now \<le> resetTime e"
  then show "check store now identifier maxRequests windowMs =
        (\<lparr>success = (count e + 1 \<le> maxRequests),
          remaining = max 0 (maxRequests - (count e + 1)),
          res_resetTime = resetTime e\<rparr>,
         store(identifier \<mapsto> e\<lparr>count := count e + 1\<rparr>))"
    by (simp add: check_increment_result)
next
  fix i
  assume h: "1 \<le> maxRequests
        \<and> (store identifier = None \<or> (\<exists>e. store identifier = Some e \<and> resetTime e < now))
        \<and> (\<forall>t\<in>set ts. t \<le> now + windowMs)" and i: "i \<le> length ts"
  then have "fst (checks store identifier maxRequests windowMs (now # ts)) ! i =
     (if i = 0 then \<lparr>success = True, remaining = maxRequests - 1, res_resetTime = now + windowMs\<rparr>
      else \<lparr>success = (int i < maxRequests), remaining = max 0 (maxRequests - (1 + int i)),
             res_resetTime = now + windowMs\<rparr>)"
    by (intro checks_from_fresh_nth) simp_all
  with h show "success (fst (checks store identifier maxRequests windowMs (now # ts)) ! i)
            \<longleftrightarrow> int i < maxRequests"
    by (simp del: checks.simps)
next
  fix i
  assume h: "1 \<le> maxRequests
        \<and> (store identifier = None \<or> (\<exists>e. store identifier = Some e \<and> resetTime e < now))
        \<and> (\<forall>t\<in>set ts. t \<le> now + windowMs)" and i: "i \<le> length ts"
    and "maxRequests \<le> int i"
  then have "fst (checks store identifier maxRequests windowMs (now # ts)) ! i =
     (if i = 0 then \<lparr>success = True, remaining = maxRequests - 1, res_resetTime = now + windowMs\<rparr>
      else \<lparr>success = (int i < maxRequests), remaining = max 0 (maxRequests - (1 + int i)),
             res_resetTime = now + windowMs\<rparr>)"
    by (intro checks_from_fresh_nth) simp_all
  with h \<open>maxRequests \<le> int i\<close>
  show "remaining (fst (checks store identifier maxRequests windowMs (now # ts)) ! i) = 0"
    by (simp del: checks.simps)
qed

theorem rate_limiter_check_semantics_witness:
  "check Map.empty 0 ''1.2.3.4'' 5 1000 =
     (\<lparr>success = True, remaining = 4, res_resetTime = 1000\<rparr>,
      [''1.2.3.4'' \<mapsto> \<lparr>count = 1, resetTime = 1000\<rparr>])
   \<and> check [''1.2.3.4'' \<mapsto> \<lparr>count = 5, resetTime = 1000\<rparr>] 900 ''1.2.3.4'' 5 1000 =
     (\<lparr>success = False, remaining = 0, res_resetTime = 1000\<rparr>,
      [''1.2.3.4'' \<mapsto> \<lparr>count = 6, resetTime = 1000\<rparr>])
   \<and> map success (fst (checks Map.empty ''1.2.3.4'' 5 1000 [0, 10, 20, 30, 40, 50]))
        = [True, True, True, True, True, False]
   \<and> remaining (fst (checks Map.empty ''1.2.3.4'' 5 1000 [0, 10, 20, 30, 40, 50]) ! 5) = 0"
  using rate_limiter_check_semantics
    [of Map.empty "''1.2.3.4''" 0 5 1000 "[10, 20, 30, 40, 50]"]
    rate_limiter_check_semantics
    [of "[''1.2.3.4'' \<mapsto> \<lparr>count = 5, resetTime = 1000\<rparr>]" "''1.2.3.4''" 900 5 1000 "[]"]
  by (simp add: check_def check_new_def Let_def)

text \<open>
  With \<open>maxRequests = 0\<close> the first call of a window is still admitted, and reports
  \<open>remaining = -1\<close>: the unamended claim would have it fail with \<open>remaining = 0\<close>.
\<close>

theorem rate_limiter_zero_limit_counterexample:
  "success (fst (checks Map.empty ''1.2.3.4'' 0 1000 [0]) ! 0)
   \<and> remaining (fst (checks Map.empty ''1.2.3.4'' 0 1000 [0]) ! 0) = - 1"
  by (simp add: check_def check_new_def)

section \<open>Account lockout: backoff, lazy reset, unknown accounts\<close>






text \<open>
  What \<open>checkAccountLockout\<close> does for any account whose lockout has ended: it stores
  \<open>failedLoginAttempts = 0\<close> and \<open>lockoutUntil = null\<close>, reports the account unlocked, and
  reports \<open>remainingAttempts\<close> from the count it read before the reset.
\<close>

theorem checkAccountLockout_lazy_reset:
  assumes u: "d email = Some u" and until: "lockoutUntil u = Some t" and elapsed: "t \<le> now"
  shows "checkAccountLockout d now email =
     Inr (\<lparr>isLocked = False,
           remainingAttempts = max 0 (maxAttempts ACCOUNT_LOCKOUT_CONFIG - failedLoginAttempts u),
           status_lockoutUntil = None, status_lockoutDuration = 0\<rparr>,
          d(email \<mapsto> u\<lparr>failedLoginAttempts := 0, lockoutUntil := None\<rparr>))"
  using assms by (simp add: checkAccountLockout_def Let_def user_update_def)

theorem checkAccountLockout_lazy_reset_witness:
  "[''test@example.com'' \<mapsto>
        \<lparr>user_id = ''user-123'', failedLoginAttempts = 7, lockoutUntil = Some 1000\<rparr>]
      ''test@example.com''
     = Some \<lparr>user_id = ''user-123'', failedLoginAttempts = 7, lockoutUntil = Some 1000\<rparr>
   \<and> (1000::int) \<le> 1000
   \<and> checkAccountLockout
       [''test@example.com'' \<mapsto>
          \<lparr>user_id = ''user-123'', failedLoginAttempts = 7, lockoutUntil = Some 1000\<rparr>]
       1000 ''test@example.com'' =
     Inr (\<lparr>isLocked = False, remainingAttempts = 0,
           status_lockoutUntil = None, status_lockoutDuration = 0\<rparr>,
          [''test@example.com'' \<mapsto>
             \<lparr>user_id = ''user-123'', failedLoginAttempts = 0, lockoutUntil = None\<rparr>])"
  using checkAccountLockout_lazy_reset
    [of "[''test@example.com'' \<mapsto>
          \<lparr>user_id = ''user-123'', failedLoginAttempts = 7, lockoutUntil = Some 1000\<rparr>]"
        "''test@example.com''"
        "\<lparr>user_id = ''user-123'', failedLoginAttempts = 7, lockoutUntil = Some 1000\<rparr>"
        1000 1000]
  by (simp add: ACCOUNT_LOCKOUT_CONFIG_def)

text \<open>
  Claim C6, at the input of the repository's own test "should reset failed attempts when
  lockout has expired": five stored failures and a lockout that ended a second ago. The
  stored state is reset and the account is reported unlocked, but the returned
  \<open>remainingAttempts\<close> is \<open>max(0, 5 - 5) = 0\<close>, the figure of the row read before the
  reset, where the claim (and that test) has \<open>maxAttempts = 5\<close>.
\<close>

theorem checkAccountLockout_expired_stale_remaining:
  "checkAccountLockout
     [''test@example.com'' \<mapsto>
        \<lparr>user_id = ''user-123'', failedLoginAttempts = 5, lockoutUntil = Some 1000\<rparr>]
     2000 ''test@example.com'' =
   Inr (\<lparr>isLocked = False, remainingAttempts = 0,
         status_lockoutUntil = None, status_lockoutDuration = 0\<rparr>,
        [''test@example.com'' \<mapsto>
           \<lparr>user_id = ''user-123'', failedLoginAttempts = 0, lockoutUntil = None\<rparr>])
   \<and> maxAttempts ACCOUNT_LOCKOUT_CONFIG = 5"
  by (simp add: checkAccountLockout_def user_update_def ACCOUNT_LOCKOUT_CONFIG_def)

text \<open>
  Claim C7, at five recorded failures: for an email with no account every call answers
  \<open>(isLocked, remainingAttempts) = (false, 4)\<close>, while an existing account with the same
  history counts down and is locked at the fifth. The two runs differ from the second
  failure on.
\<close>

theorem recordFailure_reveals_account_existence:
  "(case recordFailures Map.empty ''ghost@example.com'' [0, 1, 2, 3, 4] of
      Inl e \<Rightarrow> []
    | Inr (ss, d) \<Rightarrow> map (\<lambda>s. (isLocked s, remainingAttempts s)) ss)
     = [(False, 4), (False, 4), (False, 4), (False, 4), (False, 4)]
   \<and> (case recordFailures
            [''alice@example.com'' \<mapsto>
               \<lparr>user_id = ''u1'', failedLoginAttempts = 0, lockoutUntil = None\<rparr>]
            ''alice@example.com'' [0, 1, 2, 3, 4] of
      Inl e \<Rightarrow> []
    | Inr (ss, d) \<Rightarrow> map (\<lambda>s. (isLocked s, remainingAttempts s)) ss)
     = [(False, 4), (False, 3), (False, 2), (False, 1), (True, 0)]"
  by (simp add: recordFailedLoginAttempt_def user_update_def ACCOUNT_LOCKOUT_CONFIG_def Let_def)

lemma recordFailedLoginAttempt_missing:
  "d email = None \<Longrightarrow>
   recordFailedLoginAttempt d now email =
     Inr (\<lparr>isLocked = False, remainingAttempts = maxAttempts ACCOUNT_LOCKOUT_CONFIG - 1,
           status_lockoutUntil = None, status_lockoutDuration = 0\<rparr>, d)"
  by (simp add: recordFailedLoginAttempt_def)

lemma recordFailures_missing:
  "d email = None \<Longrightarrow>
   recordFailures d email ts =
     Inr (replicate (length ts)
            \<lparr>isLocked = False, remainingAttempts = maxAttempts ACCOUNT_LOCKOUT_CONFIG - 1,
             status_lockoutUntil = None, status_lockoutDuration = 0\<rparr>, d)"
  by (induction ts) (simp_all add: recordFailedLoginAttempt_missing)

text \<open>
  Claim C10. For an identifier with no stored account, \<open>recordFailedLoginAttempt\<close> returns
  \<open>isLocked = false\<close>, \<open>remainingAttempts = maxAttempts - 1\<close> (that is, 4) and
  \<open>lockoutUntil = null\<close>, and the stored state is the one it was given; the same holds for
  every call of any run of such calls, however many failures came before.
\<close>

theorem recordFailure_unknown_account_frame:
  "d email = None \<longrightarrow>
     recordFailedLoginAttempt d now email =
       Inr (\<lparr>isLocked = False, remainingAttempts = maxAttempts ACCOUNT_LOCKOUT_CONFIG - 1,
             status_lockoutUntil = None, status_lockoutDuration = 0\<rparr>, d)
     \<and> maxAttempts ACCOUNT_LOCKOUT_CONFIG - 1 = 4
     \<and> recordFailures d email ts =
       Inr (replicate (length ts)
              \<lparr>isLocked = False, remainingAttempts = maxAttempts ACCOUNT_LOCKOUT_CONFIG - 1,
               status_lockoutUntil = None, status_lockoutDuration = 0\<rparr>, d)"
proof
  assume missing: "d email = None"
  have cfg: "maxAttempts ACCOUNT_LOCKOUT_CONFIG - 1 = 4"
    by (simp add: ACCOUNT_LOCKOUT_CONFIG_def)
  from missing show "recordFailedLoginAttempt d now email =
       Inr (\<lparr>isLocked = False, remainingAttempts = maxAttempts ACCOUNT_LOCKOUT_CONFIG - 1,
             status_lockoutUntil = None, status_lockoutDuration = 0\<rparr>, d)
     \<and> maxAttempts ACCOUNT_LOCKOUT_CONFIG - 1 = 4
     \<and> recordFailures d email ts =
       Inr (replicate (length ts)
              \<lparr>isLocked = False, remainingAttempts = maxAttempts ACCOUNT_LOCKOUT_CONFIG - 1,
               status_lockoutUntil = None, status_lockoutDuration = 0\<rparr>, d)"
    using cfg by (simp only: recordFailedLoginAttempt_missing recordFailures_missing simp_thms)
qed

theorem recordFailure_unknown_account_frame_witness:
  "[''alice@example.com'' \<mapsto> \<lparr>user_id = ''u1'', failedLoginAttempts = 4, lockoutUntil = None\<rparr>]
      ''ghost@example.com'' = None
   \<and> recordFailures
        [''alice@example.com'' \<mapsto> \<lparr>user_id = ''u1'', failedLoginAttempts = 4, lockoutUntil = None\<rparr>]
        ''ghost@example.com'' [10, 20, 30] =
       Inr ([\<lparr>isLocked = False, remainingAttempts = 4,
              status_lockoutUntil = None, status_lockoutDuration = 0\<rparr>,
             \<lparr>isLocked = False, remainingAttempts = 4,
              status_lockoutUntil = None, status_lockoutDuration = 0\<rparr>,
             \<lparr>isLocked = False, remainingAttempts = 4,
              status_lockoutUntil = None, status_lockoutDuration = 0\<rparr>],
            [''alice@example.com'' \<mapsto> \<lparr>user_id = ''u1'', failedLoginAttempts = 4, lockoutUntil = None\<rparr>])"
  using recordFailure_unknown_account_frame
    [of "[''alice@example.com'' \<mapsto> \<lparr>user_id = ''u1'', failedLoginAttempts = 4, lockoutUntil = None\<rparr>]"
        "''ghost@example.com''" 10 "[10, 20, 30]"]
  by (simp add: ACCOUNT_LOCKOUT_CONFIG_def del: recordFailures.simps)

section \<open>Cache: eviction at capacity, expiry\<close>

text \<open>
  Facts about \<open><\<close> on JavaScript numbers: it is transitive, any two numbers other than
  \<open>NaN\<close> are comparable, and whatever is below some number is below \<open>Infinity\<close>.
\<close>

lemma js_less_trans: "js_less a b \<Longrightarrow> js_less b c \<Longrightarrow> js_less a c"
  by (cases a; cases b; cases c) simp_all

lemma js_less_linear: "a \<noteq> NaN \<Longrightarrow> b \<noteq> NaN \<Longrightarrow> js_less a b \<or> a = b \<or> js_less b a"
  by (cases a; cases b) auto

lemma js_less_below_Infinity: "js_less a b \<Longrightarrow> js_less a Infinity"
  by (cases a; cases b) simp_all

lemma js_less_irrefl: "\<not> js_less a a"
  by (cases a) simp_all

lemma js_less_NaN_right: "\<not> js_less a NaN"
  by (cases a) simp_all

text \<open>
  The keys of the map are distinct: in a new cache, and after every \<open>set\<close> and \<open>get\<close>.
  A cache in which some entry's \<open>expiresAt\<close> is below \<open>Infinity\<close> has an oldest entry in
  the sense used below: its \<open>expiresAt\<close> is below \<open>Infinity\<close>, every entry before it
  expires strictly later or has \<open>expiresAt = NaN\<close>, and no entry after it expires
  earlier.
\<close>

lemma distinct_keys_evictOldest:
  "distinct (map fst entries) \<Longrightarrow> distinct (map fst (evictOldest entries))"
  by (simp add: evictOldest_def AList.distinct_delete split: option.splits)

lemma distinct_keys_new: "distinct (map fst (cache (new_InMemoryCache ttl_seconds size_limit)))"
  by (simp add: new_InMemoryCache_def)

lemma distinct_keys_set_entry:
  "distinct (map fst (cache c)) \<Longrightarrow> distinct (map fst (cache (set_entry c now key v ttl)))"
  by (simp add: set_entry_def Let_def AList.distinct_update distinct_keys_evictOldest)

lemma distinct_keys_get:
  "distinct (map fst (cache c)) \<Longrightarrow> distinct (map fst (cache (snd (get c now key))))"
  by (simp add: get_def Let_def AList.distinct_delete split: option.splits)

lemma oldest_entry_exists:
  "\<exists>x\<in>set entries. js_less (expiresAt (snd x)) Infinity \<Longrightarrow>
   \<exists>pre k e post. entries = pre @ (k, e) # post
     \<and> js_less (expiresAt e) Infinity
     \<and> (\<forall>x\<in>set pre. js_less (expiresAt e) (expiresAt (snd x)) \<or> expiresAt (snd x) = NaN)
     \<and> (\<forall>x\<in>set post. \<not> js_less (expiresAt (snd x)) (expiresAt e))"
proof (induction entries)
  case Nil
  then show ?case by simp
next
  case (Cons x entries)
  obtain kx ex where x: "x = (kx, ex)" by (cases x)
  show ?case
  proof (cases "\<exists>y\<in>set entries. js_less (expiresAt (snd y)) Infinity")
    case False
    then have cand: "js_less (expiresAt ex) Infinity"
      using Cons.prems x by auto
    have "\<forall>y\<in>set entries. \<not> js_less (expiresAt (snd y)) (expiresAt ex)"
      using False js_less_below_Infinity by blast
    moreover have "x # entries = [] @ (kx, ex) # entries" using x by simp
    ultimately show ?thesis using cand by (metis empty_iff list.set(1))
  next
    case True
    then obtain pre k e post where split: "entries = pre @ (k, e) # post"
      and cand: "js_less (expiresAt e) Infinity"
      and pre: "\<forall>y\<in>set pre. js_less (expiresAt e) (expiresAt (snd y)) \<or> expiresAt (snd y) = NaN"
      and post: "\<forall>y\<in>set post. \<not> js_less (expiresAt (snd y)) (expiresAt e)"
      using Cons.IH by blast
    show ?thesis
    proof (cases "js_less (expiresAt e) (expiresAt ex) \<or> expiresAt ex = NaN")
      case True
      then have "\<forall>y\<in>set (x # pre).
          js_less (expiresAt e) (expiresAt (snd y)) \<or> expiresAt (snd y) = NaN"
        using pre x by simp
      moreover have "x # entries = (x # pre) @ (k, e) # post" using split by simp
      ultimately show ?thesis using post cand by blast
    next
      case False
      then have notless: "\<not> js_less (expiresAt e) (expiresAt ex)"
        and notnan: "expiresAt ex \<noteq> NaN" by simp_all
      have enotnan: "expiresAt e \<noteq> NaN"
        using cand by (cases "expiresAt e") simp_all
      have le: "js_less (expiresAt ex) (expiresAt e) \<or> expiresAt ex = expiresAt e"
        using js_less_linear [OF notnan enotnan] notless by blast
      have candx: "js_less (expiresAt ex) Infinity"
        using le cand js_less_below_Infinity by auto
      have "\<not> js_less (expiresAt (snd y)) (expiresAt ex)" if y: "y \<in> set entries" for y
      proof
        assume lt: "js_less (expiresAt (snd y)) (expiresAt ex)"
        have lte: "js_less (expiresAt (snd y)) (expiresAt e)"
          using lt le js_less_trans by auto
        from y consider "y \<in> set pre" | "y = (k, e)" | "y \<in> set post"
          unfolding split by auto
        then show False
        proof cases
          case 1
          then have "js_less (expiresAt e) (expiresAt (snd y)) \<or> expiresAt (snd y) = NaN"
            using pre by blast
          then show False
          proof
            assume "js_less (expiresAt e) (expiresAt (snd y))"
            then have "js_less (expiresAt e) (expiresAt e)"
              using lte js_less_trans by blast
            then show False by (simp add: js_less_irrefl)
          next
            assume "expiresAt (snd y) = NaN"
            then show False using lt by simp
          qed
        next
          case 2
          then show False using lte by (simp add: js_less_irrefl)
        next
          case 3
          then show False using post lte by blast
        qed
      qed
      then have "\<forall>y\<in>set entries. \<not> js_less (expiresAt (snd y)) (expiresAt ex)" by blast
      moreover have "x # entries = [] @ (kx, ex) # entries" using x by simp
      ultimately show ?thesis using candx by (metis empty_iff list.set(1))
    qed
  qed
qed

lemma oldest_scan_keep:
  "\<forall>x\<in>set post. \<not> js_less (expiresAt (snd x)) t \<Longrightarrow> oldest_scan post (Some k) t = Some k"
  by (induction post) auto

lemma oldest_scan_first_min:
  assumes "\<forall>x\<in>set pre. js_less (expiresAt e) (expiresAt (snd x)) \<or> expiresAt (snd x) = NaN"
    and "\<forall>x\<in>set post. \<not> js_less (expiresAt (snd x)) (expiresAt e)"
    and "js_less (expiresAt e) oldestTime"
  shows "oldest_scan (pre @ (k, e) # post) oldestKey oldestTime = Some k"
  using assms
proof (induction pre arbitrary: oldestKey oldestTime)
  case Nil
  then show ?case by (simp add: oldest_scan_keep)
next
  case (Cons p pre)
  obtain k1 e1 where p: "p = (k1, e1)" by (cases p)
  have pre: "\<forall>x\<in>set pre. js_less (expiresAt e) (expiresAt (snd x)) \<or> expiresAt (snd x) = NaN"
    using Cons.prems(1) by simp
  show ?case
  proof (cases "js_less (expiresAt e1) oldestTime")
    case True
    then have "expiresAt e1 \<noteq> NaN" by auto
    then have lt: "js_less (expiresAt e) (expiresAt e1)"
      using Cons.prems(1) p by simp
    show ?thesis
      using Cons.IH [OF pre Cons.prems(2) lt, of "Some k1"] True p by simp
  next
    case False
    then show ?thesis
      using Cons.IH [OF pre Cons.prems(2) Cons.prems(3), of oldestKey] p by simp
  qed
qed

lemma oldest_scan_no_candidate:
  "\<forall>x\<in>set entries. \<not> js_less (expiresAt (snd x)) Infinity \<Longrightarrow>
   oldest_scan entries None Infinity = None"
  by (induction entries) auto

lemma delete_at_split:
  "distinct (map fst (pre @ (k, e) # post)) \<Longrightarrow> AList.delete k (pre @ (k, e) # post) = pre @ post"
proof -
  assume d: "distinct (map fst (pre @ (k, e) # post))"
  then have "k \<notin> fst ` set pre" and "k \<notin> fst ` set post" by auto
  then have "filter (\<lambda>(k', _). k \<noteq> k') pre = pre" and "filter (\<lambda>(k', _). k \<noteq> k') post = post"
    by (force simp: filter_id_conv)+
  then show ?thesis by (simp add: AList.delete_eq)
qed

lemma update_absent: "map_of al key = None \<Longrightarrow> AList.update key v al = al @ [(key, v)]"
  by (induction al) (auto split: if_splits)

lemma evictOldest_first_min:
  assumes "distinct (map fst (pre @ (k, e) # post))"
    and "js_less (expiresAt e) Infinity"
    and "\<forall>x\<in>set pre. js_less (expiresAt e) (expiresAt (snd x)) \<or> expiresAt (snd x) = NaN"
    and "\<forall>x\<in>set post. \<not> js_less (expiresAt (snd x)) (expiresAt e)"
    and "k \<noteq> []"
  shows "evictOldest (pre @ (k, e) # post) = pre @ post"
proof -
  have "oldest_scan (pre @ (k, e) # post) None Infinity = Some k"
    using assms(3,4,2) by (rule oldest_scan_first_min)
  then show ?thesis
    using assms(1,5) by (simp add: evictOldest_def delete_at_split del: distinct_append map_append)
qed

lemma set_entry_evicts:
  assumes full: "js_ge (Finite (int (length (cache c)))) (maxSize c)"
    and fresh: "map_of (cache c) key = None"
    and split: "cache c = pre @ (k, e) # post"
    and dist: "distinct (map fst (cache c))"
    and cand: "js_less (expiresAt e) Infinity"
    and pre: "\<forall>x\<in>set pre. js_less (expiresAt e) (expiresAt (snd x)) \<or> expiresAt (snd x) = NaN"
    and post: "\<forall>x\<in>set post. \<not> js_less (expiresAt (snd x)) (expiresAt e)"
    and k: "k \<noteq> []"
  shows "cache (set_entry c now key v ttl) =
           pre @ post @ [(key, \<lparr>val = v, expiresAt = plus_now now (effective_ttl c ttl)\<rparr>)]"
proof -
  have ev: "evictOldest (cache c) = pre @ post"
    using dist cand pre post k unfolding split by (rule evictOldest_first_min)
  have "key \<notin> fst ` set (cache c)"
    using fresh by (simp add: map_of_eq_None_iff)
  then have "key \<notin> fst ` set (pre @ post)"
    unfolding split by auto
  then have "map_of (pre @ post) key = None"
    by (simp only: map_of_eq_None_iff not_False_eq_True)
  then have "AList.update key \<lparr>val = v, expiresAt = plus_now now (effective_ttl c ttl)\<rparr> (pre @ post) =
      (pre @ post) @ [(key, \<lparr>val = v, expiresAt = plus_now now (effective_ttl c ttl)\<rparr>)]"
    by (rule update_absent)
  then show ?thesis
    using full fresh by (simp add: set_entry_def Let_def ev)
qed

lemma set_entry_present:
  assumes "map_of (cache c) key = Some old"
  shows "cache (set_entry c now key v ttl) =
           AList.update key \<lparr>val = v, expiresAt = plus_now now (effective_ttl c ttl)\<rparr> (cache c)"
  using assms by (simp add: set_entry_def Let_def)

lemma stats_size_set_entry:
  "stats_size (stats (set_entry c now key v ttl)) = length (cache (set_entry c now key v ttl))"
  by (simp add: set_entry_def Let_def)

lemma get_absent:
  "map_of (cache c) key = None \<Longrightarrow>
   get c now key = (None, c\<lparr>stats := (stats c)\<lparr>misses := misses (stats c) + 1\<rparr>\<rparr>)"
  by (simp add: get_def)

text \<open>
  Claim C4 (as amended). Let the cache hold exactly \<open>maxSize\<close> entries, at least one, and
  let \<open>set\<close> be called with a key that is not stored. Let \<open>(k, e)\<close> be the stored entry
  with the smallest \<open>expiresAt\<close>, the first in insertion order among equals, where only
  entries whose \<open>expiresAt\<close> is below \<open>Infinity\<close> count (\<open>e\<close> is one; an earlier entry
  expires strictly later or has \<open>expiresAt = NaN\<close>; no later entry expires earlier),
  and let \<open>k\<close> not be the empty string. Then exactly that entry is removed and the new one
  is appended, so the size (of the map and in the statistics) is still \<open>maxSize\<close>, and a
  later \<open>get(k)\<close> is a miss. A \<open>set\<close> on a stored key replaces that entry in place: no
  key leaves the cache.
\<close>

theorem cache_eviction_at_capacity:
  "(distinct (map fst (cache c)) \<and> maxSize c = Finite (int (length (cache c)))
      \<and> map_of (cache c) key = None
      \<and> cache c = pre @ (k, e) # post \<and> k \<noteq> []
      \<and> js_less (expiresAt e) Infinity
      \<and> (\<forall>x\<in>set pre. js_less (expiresAt e) (expiresAt (snd x)) \<or> expiresAt (snd x) = NaN)
      \<and> (\<forall>x\<in>set post. \<not> js_less (expiresAt (snd x)) (expiresAt e))
    \<longrightarrow> cache (set_entry c now key v ttl) =
          pre @ post @ [(key, \<lparr>val = v, expiresAt = plus_now now (effective_ttl c ttl)\<rparr>)]
        \<and> Finite (int (length (cache (set_entry c now key v ttl)))) = maxSize c
        \<and> Finite (int (stats_size (stats (set_entry c now key v ttl)))) = maxSize c
        \<and> get (set_entry c now key v ttl) later k =
            (None, (set_entry c now key v ttl)
                     \<lparr>stats := (stats (set_entry c now key v ttl))
                        \<lparr>misses := misses (stats (set_entry c now key v ttl)) + 1\<rparr>\<rparr>))
   \<and> (\<forall>old. map_of (cache c) key = Some old
    \<longrightarrow> cache (set_entry c now key v ttl) =
          AList.update key \<lparr>val = v, expiresAt = plus_now now (effective_ttl c ttl)\<rparr> (cache c)
        \<and> map fst (cache (set_entry c now key v ttl)) = map fst (cache c)
        \<and> stats_size (stats (set_entry c now key v ttl)) = length (cache c))"
proof (intro conjI impI allI)
  assume h: "distinct (map fst (cache c)) \<and> maxSize c = Finite (int (length (cache c)))
      \<and> map_of (cache c) key = None
      \<and> cache c = pre @ (k, e) # post \<and> k \<noteq> []
      \<and> js_less (expiresAt e) Infinity
      \<and> (\<forall>x\<in>set pre. js_less (expiresAt e) (expiresAt (snd x)) \<or> expiresAt (snd x) = NaN)
      \<and> (\<forall>x\<in>set post. \<not> js_less (expiresAt (snd x)) (expiresAt e))"
  let ?c' = "set_entry c now key v ttl"
  from h have dist: "distinct (map fst (cache c))"
    and full: "maxSize c = Finite (int (length (cache c)))"
    and fresh: "map_of (cache c) key = None"
    and split: "cache c = pre @ (k, e) # post"
    and k: "k \<noteq> []"
    and cand: "js_less (expiresAt e) Infinity"
    and pre: "\<forall>x\<in>set pre. js_less (expiresAt e) (expiresAt (snd x)) \<or> expiresAt (snd x) = NaN"
    and post: "\<forall>x\<in>set post. \<not> js_less (expiresAt (snd x)) (expiresAt e)"
    by blast+
  have at_capacity: "js_ge (Finite (int (length (cache c)))) (maxSize c)"
    by (simp add: full js_ge_def)
  have after: "cache ?c' =
      pre @ post @ [(key, \<lparr>val = v, expiresAt = plus_now now (effective_ttl c ttl)\<rparr>)]"
    using at_capacity fresh split dist cand pre post k by (rule set_entry_evicts)
  show "cache ?c' =
      pre @ post @ [(key, \<lparr>val = v, expiresAt = plus_now now (effective_ttl c ttl)\<rparr>)]"
    by (rule after)
  have len: "length (cache ?c') = length (cache c)"
    unfolding after split by simp
  show "Finite (int (length (cache ?c'))) = maxSize c"
    using full len by simp
  show "Finite (int (stats_size (stats ?c'))) = maxSize c"
    using full len by (simp add: stats_size_set_entry)
  have "key \<notin> fst ` set (cache c)"
    using fresh by (simp add: map_of_eq_None_iff)
  then have "k \<noteq> key"
    unfolding split by auto
  moreover have "k \<notin> fst ` set pre" "k \<notin> fst ` set post"
    using dist unfolding split by auto
  ultimately have "k \<notin> fst ` set (cache ?c')"
    unfolding after by auto
  then have gone: "map_of (cache ?c') k = None"
    by (simp add: map_of_eq_None_iff)
  show "get ?c' later k = (None, ?c'\<lparr>stats := (stats ?c')\<lparr>misses := misses (stats ?c') + 1\<rparr>\<rparr>)"
    using gone by (rule get_absent)
next
  fix old
  assume present: "map_of (cache c) key = Some old"
  let ?c' = "set_entry c now key v ttl"
  show upd: "cache ?c' =
      AList.update key \<lparr>val = v, expiresAt = plus_now now (effective_ttl c ttl)\<rparr> (cache c)"
    using present by (rule set_entry_present)
  have "key \<in> set (map fst (cache c))"
    using present by (auto dest: map_of_SomeD intro: rev_image_eqI)
  then show keys: "map fst (cache ?c') = map fst (cache c)"
    unfolding upd by (simp add: AList.update_keys)
  show "stats_size (stats ?c') = length (cache c)"
    using keys stats_size_set_entry [of c now key v ttl] by (metis length_map)
qed

text \<open>
  The scenario of the specification: TTL 5 s, \<open>maxSize = 3\<close>, keys A, B, C, D inserted in
  this order with equal expiry. A is evicted, three entries remain, \<open>get('A')\<close> is a miss.
  And with a first entry P that never expires, A is the one evicted.
\<close>

theorem cache_eviction_at_capacity_witness:
  "set_entry (set_entry (set_entry (new_InMemoryCache (Finite 5) (Finite 3)) 0 ''A'' (1::nat) None)
                0 ''B'' 2 None) 0 ''C'' 3 None
     = \<lparr>cache = [(''A'', \<lparr>val = 1::nat, expiresAt = Finite 5000\<rparr>),
                  (''B'', \<lparr>val = 2, expiresAt = Finite 5000\<rparr>),
                  (''C'', \<lparr>val = 3, expiresAt = Finite 5000\<rparr>)],
         stats = \<lparr>hits = 0, misses = 0, stats_size = 3\<rparr>,
         defaultTTL = Finite 5000, maxSize = Finite 3\<rparr>
   \<and> cache (set_entry
        \<lparr>cache = [(''A'', \<lparr>val = 1::nat, expiresAt = Finite 5000\<rparr>),
                  (''B'', \<lparr>val = 2, expiresAt = Finite 5000\<rparr>),
                  (''C'', \<lparr>val = 3, expiresAt = Finite 5000\<rparr>)],
         stats = \<lparr>hits = 0, misses = 0, stats_size = 3\<rparr>,
         defaultTTL = Finite 5000, maxSize = Finite 3\<rparr>
        0 ''D'' 4 None)
     = [(''B'', \<lparr>val = 2, expiresAt = Finite 5000\<rparr>), (''C'', \<lparr>val = 3, expiresAt = Finite 5000\<rparr>),
        (''D'', \<lparr>val = 4, expiresAt = Finite 5000\<rparr>)]
   \<and> fst (get (set_entry
        \<lparr>cache = [(''A'', \<lparr>val = 1::nat, expiresAt = Finite 5000\<rparr>),
                  (''B'', \<lparr>val = 2, expiresAt = Finite 5000\<rparr>),
                  (''C'', \<lparr>val = 3, expiresAt = Finite 5000\<rparr>)],
         stats = \<lparr>hits = 0, misses = 0, stats_size = 3\<rparr>,
         defaultTTL = Finite 5000, maxSize = Finite 3\<rparr>
        0 ''D'' 4 None) 0 ''A'') = None
   \<and> cache (set_entry
        \<lparr>cache = [(''A'', \<lparr>val = 1::nat, expiresAt = Finite 5000\<rparr>),
                  (''B'', \<lparr>val = 2, expiresAt = Finite 5000\<rparr>),
                  (''C'', \<lparr>val = 3, expiresAt = Finite 5000\<rparr>)],
         stats = \<lparr>hits = 0, misses = 0, stats_size = 3\<rparr>,
         defaultTTL = Finite 5000, maxSize = Finite 3\<rparr>
        7 ''B'' 9 None)
     = [(''A'', \<lparr>val = 1, expiresAt = Finite 5000\<rparr>), (''B'', \<lparr>val = 9, expiresAt = Finite 5007\<rparr>),
        (''C'', \<lparr>val = 3, expiresAt = Finite 5000\<rparr>)]
   \<and> cache (set_entry
        \<lparr>cache = [(''P'', \<lparr>val = 0::nat, expiresAt = Infinity\<rparr>),
                  (''A'', \<lparr>val = 1, expiresAt = Finite 5000\<rparr>),
                  (''B'', \<lparr>val = 2, expiresAt = Finite 5000\<rparr>)],
         stats = \<lparr>hits = 0, misses = 0, stats_size = 3\<rparr>,
         defaultTTL = Finite 5000, maxSize = Finite 3\<rparr>
        0 ''D'' 4 None)
     = [(''P'', \<lparr>val = 0, expiresAt = Infinity\<rparr>), (''B'', \<lparr>val = 2, expiresAt = Finite 5000\<rparr>),
        (''D'', \<lparr>val = 4, expiresAt = Finite 5000\<rparr>)]"
  using cache_eviction_at_capacity
    [of "\<lparr>cache = [(''A'', \<lparr>val = 1::nat, expiresAt = Finite 5000\<rparr>),
                  (''B'', \<lparr>val = 2, expiresAt = Finite 5000\<rparr>),
                  (''C'', \<lparr>val = 3, expiresAt = Finite 5000\<rparr>)],
         stats = \<lparr>hits = 0, misses = 0, stats_size = 3\<rparr>,
         defaultTTL = Finite 5000, maxSize = Finite 3\<rparr>"
        "''D''" "[]" "''A''" "\<lparr>val = 1, expiresAt = Finite 5000\<rparr>"
        "[(''B'', \<lparr>val = 2, expiresAt = Finite 5000\<rparr>), (''C'', \<lparr>val = 3, expiresAt = Finite 5000\<rparr>)]"
        0 4 None 0]
    cache_eviction_at_capacity
    [of "\<lparr>cache = [(''A'', \<lparr>val = 1::nat, expiresAt = Finite 5000\<rparr>),
                  (''B'', \<lparr>val = 2, expiresAt = Finite 5000\<rparr>),
                  (''C'', \<lparr>val = 3, expiresAt = Finite 5000\<rparr>)],
         stats = \<lparr>hits = 0, misses = 0, stats_size = 3\<rparr>,
         defaultTTL = Finite 5000, maxSize = Finite 3\<rparr>"
        "''B''" "[]" "''A''" "\<lparr>val = 1, expiresAt = Finite 5000\<rparr>"
        "[(''B'', \<lparr>val = 2, expiresAt = Finite 5000\<rparr>), (''C'', \<lparr>val = 3, expiresAt = Finite 5000\<rparr>)]"
        7 9 None 0]
    cache_eviction_at_capacity
    [of "\<lparr>cache = [(''P'', \<lparr>val = 0::nat, expiresAt = Infinity\<rparr>),
                  (''A'', \<lparr>val = 1, expiresAt = Finite 5000\<rparr>),
                  (''B'', \<lparr>val = 2, expiresAt = Finite 5000\<rparr>)],
         stats = \<lparr>hits = 0, misses = 0, stats_size = 3\<rparr>,
         defaultTTL = Finite 5000, maxSize = Finite 3\<rparr>"
        "''D''" "[(''P'', \<lparr>val = 0, expiresAt = Infinity\<rparr>)]" "''A''"
        "\<lparr>val = 1, expiresAt = Finite 5000\<rparr>"
        "[(''B'', \<lparr>val = 2, expiresAt = Finite 5000\<rparr>)]"
        0 4 None 0]
  by (simp add: set_entry_def new_InMemoryCache_def effective_ttl_def evictOldest_def
        get_def Let_def js_ge_def js_falsy_def plus_now_def times_1000_def)

text \<open>
  Where the unamended claim fails. With \<open>maxSize = 0\<close> the empty cache is at capacity, no
  entry can be evicted, and the size after the insertion is 1. With \<open>maxSize = 1\<close> and
  the one stored key the empty string, \<open>if (oldestKey)\<close> takes that key for no key:
  nothing is evicted and the size after the insertion is 2. With \<open>maxSize = 1\<close> and the
  one entry stored by \<open>set('a', 1, Infinity)\<close>, its \<open>expiresAt\<close> is \<open>Infinity\<close>, which is
  not below the \<open>Infinity\<close> the scan starts from: \<open>oldestKey\<close> stays \<open>null\<close>, nothing is
  evicted and the size after the insertion is 2.
\<close>

theorem cache_eviction_counterexample:
  "maxSize (new_InMemoryCache (Finite 5) (Finite 0) :: nat InMemoryCache) = Finite 0
   \<and> cache (new_InMemoryCache (Finite 5) (Finite 0) :: nat InMemoryCache) = []
   \<and> set_entry (new_InMemoryCache (Finite 5) (Finite 0)) 0 ''A'' (1::nat) None
       = \<lparr>cache = [(''A'', \<lparr>val = 1, expiresAt = Finite 5000\<rparr>)],
          stats = \<lparr>hits = 0, misses = 0, stats_size = 1\<rparr>,
          defaultTTL = Finite 5000, maxSize = Finite 0\<rparr>
   \<and> set_entry \<lparr>cache = [('''', \<lparr>val = 1::nat, expiresAt = Finite 5000\<rparr>)],
                 stats = \<lparr>hits = 0, misses = 0, stats_size = 1\<rparr>,
                 defaultTTL = Finite 5000, maxSize = Finite 1\<rparr> 5 ''a'' 2 None
       = \<lparr>cache = [('''', \<lparr>val = 1, expiresAt = Finite 5000\<rparr>),
                   (''a'', \<lparr>val = 2, expiresAt = Finite 5005\<rparr>)],
          stats = \<lparr>hits = 0, misses = 0, stats_size = 2\<rparr>,
          defaultTTL = Finite 5000, maxSize = Finite 1\<rparr>
   \<and> set_entry (new_InMemoryCache (Finite 5) (Finite 1)) 0 ''a'' (1::nat) (Some Infinity)
       = \<lparr>cache = [(''a'', \<lparr>val = 1, expiresAt = Infinity\<rparr>)],
          stats = \<lparr>hits = 0, misses = 0, stats_size = 1\<rparr>,
          defaultTTL = Finite 5000, maxSize = Finite 1\<rparr>
   \<and> set_entry \<lparr>cache = [(''a'', \<lparr>val = 1::nat, expiresAt = Infinity\<rparr>)],
                 stats = \<lparr>hits = 0, misses = 0, stats_size = 1\<rparr>,
                 defaultTTL = Finite 5000, maxSize = Finite 1\<rparr> 5 ''b'' 2 None
       = \<lparr>cache = [(''a'', \<lparr>val = 1, expiresAt = Infinity\<rparr>),
                   (''b'', \<lparr>val = 2, expiresAt = Finite 5005\<rparr>)],
          stats = \<lparr>hits = 0, misses = 0, stats_size = 2\<rparr>,
          defaultTTL = Finite 5000, maxSize = Finite 1\<rparr>"
  by (simp add: set_entry_def new_InMemoryCache_def effective_ttl_def evictOldest_def Let_def
        js_ge_def js_falsy_def plus_now_def times_1000_def)

text \<open>
  What \<open>get\<close> after \<open>set\<close> does, with the TTL as the code counts it: the entry expires
  at \<open>now\<close> plus the effective TTL in milliseconds; a \<open>get\<close> is a hit as long as
  \<open>Date.now()\<close> is not beyond that (up to and including \<open>now + ttl\<close> for a finite TTL,
  always for \<open>Infinity\<close> and \<open>NaN\<close>), and otherwise a miss that removes the entry.
\<close>

theorem cache_get_after_set_milliseconds:
  "get (set_entry c now key v ttl) later key =
     (let c' = set_entry c now key v ttl
      in if js_less (plus_now now (effective_ttl c ttl)) (Finite later)
         then (None, c'\<lparr>cache := AList.delete key (cache c'),
                         stats := (stats c')\<lparr>misses := misses (stats c') + 1,
                                            stats_size := length (AList.delete key (cache c'))\<rparr>\<rparr>)
         else (Some v, c'\<lparr>stats := (stats c')\<lparr>hits := hits (stats c') + 1\<rparr>\<rparr>))"
proof -
  have "map_of (cache (set_entry c now key v ttl)) key
      = Some \<lparr>val = v, expiresAt = plus_now now (effective_ttl c ttl)\<rparr>"
    by (simp add: set_entry_def Let_def AList.update_conv')
  then show ?thesis
    by (simp add: get_def Let_def)
qed

text \<open>
  Claim C3, at \<open>set('k', 'v', 5)\<close> on the default cache and \<open>get('k')\<close> one second later,
  four seconds before a TTL of five seconds ends. The given \<open>5\<close> is not converted as the
  default TTL is (\<open>300\<close> seconds are stored as \<open>300000\<close>): the entry expires after five
  milliseconds, and the \<open>get\<close> is a miss that removes it.
\<close>

theorem cache_ttl_given_in_seconds_expires_early:
  "effective_ttl (new_InMemoryCache (Finite 300) (Finite 1000) :: string InMemoryCache)
       (Some (Finite 5)) = Finite 5
   \<and> effective_ttl (new_InMemoryCache (Finite 300) (Finite 1000) :: string InMemoryCache) None
       = Finite (300 * 1000)
   \<and> get (set_entry (new_InMemoryCache (Finite 300) (Finite 1000)) 0 ''k'' ''v''
             (Some (Finite 5))) 1000 ''k''
       = (None, \<lparr>cache = [], stats = \<lparr>hits = 0, misses = 1, stats_size = 0\<rparr>,
                 defaultTTL = Finite 300000, maxSize = Finite 1000\<rparr>)"
  by (simp add: get_def set_entry_def new_InMemoryCache_def effective_ttl_def Let_def
        js_ge_def js_falsy_def plus_now_def times_1000_def)

section \<open>Circuit breaker: lifecycle and cumulative counters\<close>

lemmas breaker_defs =
  execute_def onSuccess_def onFailure_def updateStats_def
  transitionToOpen_def transitionToClosed_def transitionToHalfOpen_def Let_def

lemma new_CircuitBreaker_ready:
  "state (new_CircuitBreaker p) = CLOSED \<and> failureCount (new_CircuitBreaker p) = 0
   \<and> successCount (new_CircuitBreaker p) = 0
   \<and> 0 < failureThreshold (config (new_CircuitBreaker p))
   \<and> 0 < successThreshold (config (new_CircuitBreaker p))
   \<and> 0 < resetTimeout (config (new_CircuitBreaker p))"
  by (simp add: new_CircuitBreaker_def or_default_def split: option.splits)

lemma config_execute: "config (fst (snd (execute b now fn w))) = config b"
  by (simp add: breaker_defs split: prod.splits sum.splits)

lemma execute_rejected:
  "state b = OPEN \<Longrightarrow> nextAttemptTime b = Some t \<Longrightarrow> now < t \<Longrightarrow>
   execute b now fn w = (Inl (CircuitBreakerOpenError ''Circuit breaker is OPEN''), b, w)"
  by (simp add: execute_def)

lemma execute_open_elapsed:
  "state b = OPEN \<Longrightarrow> nextAttemptTime b = Some t \<Longrightarrow> t \<le> now \<Longrightarrow>
   execute b now fn w = execute (transitionToHalfOpen b) now fn w"
  by (simp add: execute_def transitionToHalfOpen_def)

lemma execute_invokes:
  "\<not> (state b = OPEN \<and> now < (case nextAttemptTime b of None \<Rightarrow> 0 | Some t \<Rightarrow> t)) \<Longrightarrow>
   snd (snd (execute b now fn w)) = snd (fn w)"
  by (auto simp: execute_def withTimeout_def Let_def split: prod.splits sum.splits promise.splits)

lemma execute_closed_failure:
  assumes "state b = CLOSED"
    and "withTimeout fn (requestTimeout (config b)) w = (Inl e, elapsed, w')"
  shows "execute b now fn w =
     (Inl e,
      updateStats
        (if failureThreshold (config b) \<le> failureCount b + 1
         then b\<lparr>state := OPEN, failureCount := failureCount b + 1, successCount := 0,
                 lastFailureTime := Some (now + int elapsed),
                 nextAttemptTime := Some (now + int elapsed + int (resetTimeout (config b))),
                 breaker_stats := (breaker_stats b)
                   \<lparr>totalRequests := totalRequests (breaker_stats b) + 1,
                     totalFailures := totalFailures (breaker_stats b) + 1\<rparr>\<rparr>
         else b\<lparr>failureCount := failureCount b + 1,
                 lastFailureTime := Some (now + int elapsed),
                 breaker_stats := (breaker_stats b)
                   \<lparr>totalRequests := totalRequests (breaker_stats b) + 1,
                     totalFailures := totalFailures (breaker_stats b) + 1\<rparr>\<rparr>),
      w')"
  using assms by (simp add: breaker_defs)

lemma execute_closed_success:
  assumes "state b = CLOSED"
    and "withTimeout fn (requestTimeout (config b)) w = (Inr v, elapsed, w')"
  shows "execute b now fn w =
     (Inr v,
      updateStats
        (b\<lparr>failureCount := 0, successCount := successCount b + 1,
            lastSuccessTime := Some (now + int elapsed),
            breaker_stats := (breaker_stats b)
              \<lparr>totalRequests := totalRequests (breaker_stats b) + 1,
                totalSuccesses := totalSuccesses (breaker_stats b) + 1\<rparr>\<rparr>),
      w')"
  using assms by (simp add: breaker_defs)

lemma execute_half_open_failure:
  assumes "state b = HALF_OPEN"
    and "withTimeout fn (requestTimeout (config b)) w = (Inl e, elapsed, w')"
  shows "execute b now fn w =
     (Inl e,
      updateStats
        (b\<lparr>state := OPEN, failureCount := failureCount b + 1, successCount := 0,
            lastFailureTime := Some (now + int elapsed),
            nextAttemptTime := Some (now + int elapsed + int (resetTimeout (config b))),
            breaker_stats := (breaker_stats b)
              \<lparr>totalRequests := totalRequests (breaker_stats b) + 1,
                totalFailures := totalFailures (breaker_stats b) + 1\<rparr>\<rparr>),
      w')"
  using assms by (simp add: breaker_defs)

lemma execute_half_open_success:
  assumes "state b = HALF_OPEN"
    and "withTimeout fn (requestTimeout (config b)) w = (Inr v, elapsed, w')"
  shows "execute b now fn w =
     (Inr v,
      updateStats
        (if successThreshold (config b) \<le> successCount b + 1
         then b\<lparr>state := CLOSED, failureCount := 0, successCount := 0,
                 lastSuccessTime := Some (now + int elapsed), nextAttemptTime := None,
                 breaker_stats := (breaker_stats b)
                   \<lparr>totalRequests := totalRequests (breaker_stats b) + 1,
                     totalSuccesses := totalSuccesses (breaker_stats b) + 1\<rparr>\<rparr>
         else b\<lparr>failureCount := 0, successCount := successCount b + 1,
                 lastSuccessTime := Some (now + int elapsed),
                 breaker_stats := (breaker_stats b)
                   \<lparr>totalRequests := totalRequests (breaker_stats b) + 1,
                     totalSuccesses := totalSuccesses (breaker_stats b) + 1\<rparr>\<rparr>),
      w')"
  using assms by (simp add: breaker_defs)

lemma updateStats_fields [simp]:
  "state (updateStats b) = state b" "failureCount (updateStats b) = failureCount b"
  "successCount (updateStats b) = successCount b" "config (updateStats b) = config b"
  "nextAttemptTime (updateStats b) = nextAttemptTime b"
  "lastFailureTime (updateStats b) = lastFailureTime b"
  "lastSuccessTime (updateStats b) = lastSuccessTime b"
  "totalRequests (breaker_stats (updateStats b)) = totalRequests (breaker_stats b)"
  "totalFailures (breaker_stats (updateStats b)) = totalFailures (breaker_stats b)"
  "totalSuccesses (breaker_stats (updateStats b)) = totalSuccesses (breaker_stats b)"
  by (simp_all add: updateStats_def)

lemma failing_call:
  assumes "isl (fst (withTimeout fn limit w))"
  obtains e elapsed w' where "withTimeout fn limit w = (Inl e, elapsed, w')"
proof -
  obtain r elapsed w' where r: "withTimeout fn limit w = (r, elapsed, w')"
    by (cases "withTimeout fn limit w") auto
  with assms obtain e where "r = Inl e" by (cases r) auto
  with r that show thesis by blast
qed

lemma succeeding_call:
  assumes "\<not> isl (fst (withTimeout fn limit w))"
  obtains v elapsed w' where "withTimeout fn limit w = (Inr v, elapsed, w')"
proof -
  obtain r elapsed w' where r: "withTimeout fn limit w = (r, elapsed, w')"
    by (cases "withTimeout fn limit w") auto
  with assms obtain v where "r = Inr v" by (cases r) auto
  with r that show thesis by blast
qed

lemma closed_failures_open:
  assumes "state b = CLOSED" and "calls \<noteq> []"
    and "failureCount b + length calls = failureThreshold (config b)"
    and "\<forall>(t, fn)\<in>set calls. \<forall>w. isl (fst (withTimeout fn (requestTimeout (config b)) w))"
  shows "case executes b w calls of
           (rs, b', w') \<Rightarrow>
             state b' = OPEN \<and> successCount b' = 0
             \<and> failureCount b' = failureThreshold (config b) \<and> config b' = config b
             \<and> (\<exists>t. lastFailureTime b' = Some t
                    \<and> nextAttemptTime b' = Some (t + int (resetTimeout (config b))))"
  using assms
proof (induction calls arbitrary: b w)
  case Nil
  then show ?case by simp
next
  case (Cons c calls)
  obtain now fn where c: "c = (now, fn)" by (cases c)
  have "isl (fst (withTimeout fn (requestTimeout (config b)) w))"
    using Cons.prems(4) c by auto
  then obtain e elapsed w' where
    race: "withTimeout fn (requestTimeout (config b)) w = (Inl e, elapsed, w')"
    by (rule failing_call)
  note step = execute_closed_failure [OF Cons.prems(1) race, of now]
  show ?case
  proof (cases "calls = []")
    case True
    then have "failureThreshold (config b) \<le> failureCount b + 1"
      using Cons.prems(3) by simp
    then show ?thesis
      using True c step Cons.prems(3) by simp
  next
    case False
    then have below: "\<not> failureThreshold (config b) \<le> failureCount b + 1"
      using Cons.prems(3) by (cases calls) auto
    let ?b1 = "updateStats (b\<lparr>failureCount := failureCount b + 1,
                 lastFailureTime := Some (now + int elapsed),
                 breaker_stats := (breaker_stats b)
                   \<lparr>totalRequests := totalRequests (breaker_stats b) + 1,
                     totalFailures := totalFailures (breaker_stats b) + 1\<rparr>\<rparr>)"
    have step': "execute b now fn w = (Inl e, ?b1, w')"
      using step below by simp
    have "case executes ?b1 w' calls of
           (rs, b', w'') \<Rightarrow>
             state b' = OPEN \<and> successCount b' = 0
             \<and> failureCount b' = failureThreshold (config ?b1) \<and> config b' = config ?b1
             \<and> (\<exists>t. lastFailureTime b' = Some t
                    \<and> nextAttemptTime b' = Some (t + int (resetTimeout (config ?b1))))"
      using Cons.prems False by (intro Cons.IH) auto
    then show ?thesis
      using c step' by (auto split: prod.splits)
  qed
qed

lemma half_open_successes_close:
  assumes "state b = HALF_OPEN" and "calls \<noteq> []"
    and "successCount b + length calls = successThreshold (config b)"
    and "\<forall>(t, fn)\<in>set calls. \<forall>w. \<not> isl (fst (withTimeout fn (requestTimeout (config b)) w))"
  shows "case executes b w calls of
           (rs, b', w') \<Rightarrow>
             state b' = CLOSED \<and> failureCount b' = 0 \<and> successCount b' = 0
             \<and> config b' = config b"
  using assms
proof (induction calls arbitrary: b w)
  case Nil
  then show ?case by simp
next
  case (Cons c calls)
  obtain now fn where c: "c = (now, fn)" by (cases c)
  have "\<not> isl (fst (withTimeout fn (requestTimeout (config b)) w))"
    using Cons.prems(4) c by auto
  then obtain v elapsed w' where
    race: "withTimeout fn (requestTimeout (config b)) w = (Inr v, elapsed, w')"
    by (rule succeeding_call)
  note step = execute_half_open_success [OF Cons.prems(1) race, of now]
  show ?case
  proof (cases "calls = []")
    case True
    then have "successThreshold (config b) \<le> successCount b + 1"
      using Cons.prems(3) by simp
    then show ?thesis
      using True c step by simp
  next
    case False
    then have below: "\<not> successThreshold (config b) \<le> successCount b + 1"
      using Cons.prems(3) by (cases calls) auto
    let ?b1 = "updateStats (b\<lparr>failureCount := 0, successCount := successCount b + 1,
                 lastSuccessTime := Some (now + int elapsed),
                 breaker_stats := (breaker_stats b)
                   \<lparr>totalRequests := totalRequests (breaker_stats b) + 1,
                     totalSuccesses := totalSuccesses (breaker_stats b) + 1\<rparr>\<rparr>)"
    have step': "execute b now fn w = (Inr v, ?b1, w')"
      using step below by simp
    have "case executes ?b1 w' calls of
           (rs, b', w'') \<Rightarrow>
             state b' = CLOSED \<and> failureCount b' = 0 \<and> successCount b' = 0
             \<and> config b' = config ?b1"
      using Cons.prems False by (intro Cons.IH) auto
    then show ?thesis
      using c step' by (auto split: prod.splits)
  qed
qed

lemma open_successes_close:
  assumes "state b = OPEN" and "nextAttemptTime b = Some t" and "t \<le> now"
    and "Suc (length calls) = successThreshold (config b)"
    and "\<forall>(t, fn)\<in>set ((now, fn) # calls).
           \<forall>w. \<not> isl (fst (withTimeout fn (requestTimeout (config b)) w))"
  shows "case executes b w ((now, fn) # calls) of
           (rs, b', w') \<Rightarrow>
             state b' = CLOSED \<and> failureCount b' = 0 \<and> successCount b' = 0
             \<and> config b' = config b"
proof -
  let ?h = "transitionToHalfOpen b"
  have same: "executes b w ((now, fn) # calls) = executes ?h w ((now, fn) # calls)"
    using assms(1-3) by (simp add: execute_open_elapsed)
  have "case executes ?h w ((now, fn) # calls) of
           (rs, b', w') \<Rightarrow>
             state b' = CLOSED \<and> failureCount b' = 0 \<and> successCount b' = 0
             \<and> config b' = config ?h"
    using assms(4,5) by (intro half_open_successes_close) (simp_all add: transitionToHalfOpen_def)
  then show ?thesis
    unfolding same by (simp add: transitionToHalfOpen_def)
qed

lemma lifecycle_closed_failure:
  "state b = CLOSED \<and> withTimeout fn (requestTimeout (config b)) w = (Inl e, elapsed, w') \<longrightarrow>
     (case execute b now fn w of
        (r, b', w'') \<Rightarrow>
          r = Inl e \<and> w'' = w' \<and> failureCount b' = failureCount b + 1
          \<and> (if failureThreshold (config b) \<le> failureCount b + 1
              then state b' = OPEN \<and> successCount b' = 0
                   \<and> nextAttemptTime b' =
                       Some (now + int elapsed + int (resetTimeout (config b)))
              else state b' = CLOSED))"
  by (simp add: execute_closed_failure)

lemma lifecycle_closed_success:
  "state b = CLOSED \<and> withTimeout fn (requestTimeout (config b)) w = (Inr v, elapsed, w') \<longrightarrow>
     (case execute b now fn w of
        (r, b', w'') \<Rightarrow> r = Inr v \<and> w'' = w' \<and> state b' = CLOSED \<and> failureCount b' = 0)"
  by (simp add: execute_closed_success)

lemma lifecycle_open_after_threshold:
  "state b = CLOSED \<and> failureCount b = 0 \<and> calls \<noteq> []
     \<and> length calls = failureThreshold (config b)
     \<and> (\<forall>(t, fn)\<in>set calls. \<forall>w. isl (fst (withTimeout fn (requestTimeout (config b)) w))) \<longrightarrow>
     (case executes b w calls of
        (rs, b', w') \<Rightarrow>
          state b' = OPEN \<and> successCount b' = 0
          \<and> (\<exists>t. lastFailureTime b' = Some t
                 \<and> nextAttemptTime b' = Some (t + int (resetTimeout (config b)))
                 \<and> (\<forall>now fn. now < t + int (resetTimeout (config b)) \<longrightarrow>
                       execute b' now fn w' =
                         (Inl (CircuitBreakerOpenError ''Circuit breaker is OPEN''), b', w'))))"
proof
  assume h: "state b = CLOSED \<and> failureCount b = 0 \<and> calls \<noteq> []
     \<and> length calls = failureThreshold (config b)
     \<and> (\<forall>(t, fn)\<in>set calls. \<forall>w. isl (fst (withTimeout fn (requestTimeout (config b)) w)))"
  obtain rs b' w' where run: "executes b w calls = (rs, b', w')"
    by (cases "executes b w calls") auto
  have "case executes b w calls of
           (rs, b', w') \<Rightarrow>
             state b' = OPEN \<and> successCount b' = 0
             \<and> failureCount b' = failureThreshold (config b) \<and> config b' = config b
             \<and> (\<exists>t. lastFailureTime b' = Some t
                    \<and> nextAttemptTime b' = Some (t + int (resetTimeout (config b))))"
    using h by (intro closed_failures_open) simp_all
  then obtain t where opened: "state b' = OPEN" "successCount b' = 0"
    and t: "lastFailureTime b' = Some t"
           "nextAttemptTime b' = Some (t + int (resetTimeout (config b)))"
    unfolding run by auto
  have "\<forall>now fn. now < t + int (resetTimeout (config b)) \<longrightarrow>
          execute b' now fn w' =
            (Inl (CircuitBreakerOpenError ''Circuit breaker is OPEN''), b', w')"
    using opened(1) t(2) by (simp add: execute_rejected)
  then show "case executes b w calls of
        (rs, b', w') \<Rightarrow>
          state b' = OPEN \<and> successCount b' = 0
          \<and> (\<exists>t. lastFailureTime b' = Some t
                 \<and> nextAttemptTime b' = Some (t + int (resetTimeout (config b)))
                 \<and> (\<forall>now fn. now < t + int (resetTimeout (config b)) \<longrightarrow>
                       execute b' now fn w' =
                         (Inl (CircuitBreakerOpenError ''Circuit breaker is OPEN''), b', w')))"
    unfolding run using opened t by simp
qed

lemma lifecycle_rejected:
  "state b = OPEN \<and> nextAttemptTime b = Some t \<and> now < t \<longrightarrow>
     execute b now fn w = (Inl (CircuitBreakerOpenError ''Circuit breaker is OPEN''), b, w)"
  by (simp add: execute_rejected)

lemma lifecycle_half_open_entered:
  "state b = OPEN \<and> nextAttemptTime b = Some t \<and> t \<le> now \<longrightarrow>
     execute b now fn w = execute (transitionToHalfOpen b) now fn w
     \<and> state (transitionToHalfOpen b) = HALF_OPEN
     \<and> successCount (transitionToHalfOpen b) = 0
     \<and> snd (snd (execute b now fn w)) = snd (fn w)"
proof
  assume h: "state b = OPEN \<and> nextAttemptTime b = Some t \<and> t \<le> now"
  then have "\<not> (state b = OPEN \<and> now < (case nextAttemptTime b of None \<Rightarrow> 0 | Some t \<Rightarrow> t))"
    by simp
  then have "snd (snd (execute b now fn w)) = snd (fn w)"
    by (rule execute_invokes)
  then show "execute b now fn w = execute (transitionToHalfOpen b) now fn w
     \<and> state (transitionToHalfOpen b) = HALF_OPEN
     \<and> successCount (transitionToHalfOpen b) = 0
     \<and> snd (snd (execute b now fn w)) = snd (fn w)"
    using h execute_open_elapsed [of b t now fn w] by (simp add: transitionToHalfOpen_def)
qed

lemma lifecycle_closed_after_successes:
  "state b = OPEN \<and> nextAttemptTime b = Some t \<and> t \<le> now
     \<and> Suc (length calls) = successThreshold (config b)
     \<and> (\<forall>(t, fn)\<in>set ((now, fn) # calls).
           \<forall>w. \<not> isl (fst (withTimeout fn (requestTimeout (config b)) w))) \<longrightarrow>
     (case executes b w ((now, fn) # calls) of
        (rs, b', w') \<Rightarrow> state b' = CLOSED \<and> failureCount b' = 0 \<and> successCount b' = 0)"
proof
  assume h: "state b = OPEN \<and> nextAttemptTime b = Some t \<and> t \<le> now
     \<and> Suc (length calls) = successThreshold (config b)
     \<and> (\<forall>(t, fn)\<in>set ((now, fn) # calls).
           \<forall>w. \<not> isl (fst (withTimeout fn (requestTimeout (config b)) w)))"
  have "case executes b w ((now, fn) # calls) of
           (rs, b', w') \<Rightarrow>
             state b' = CLOSED \<and> failureCount b' = 0 \<and> successCount b' = 0
             \<and> config b' = config b"
    using h by (intro open_successes_close [where t = t]) blast+
  then show "case executes b w ((now, fn) # calls) of
        (rs, b', w') \<Rightarrow> state b' = CLOSED \<and> failureCount b' = 0 \<and> successCount b' = 0"
    by (auto split: prod.splits)
qed

lemma lifecycle_half_open_successes:
  "state b = HALF_OPEN \<and> calls \<noteq> []
     \<and> successCount b + length calls = successThreshold (config b)
     \<and> (\<forall>(t, fn)\<in>set calls.
           \<forall>w. \<not> isl (fst (withTimeout fn (requestTimeout (config b)) w))) \<longrightarrow>
     (case executes b w calls of
        (rs, b', w') \<Rightarrow> state b' = CLOSED \<and> failureCount b' = 0 \<and> successCount b' = 0)"
proof
  assume h: "state b = HALF_OPEN \<and> calls \<noteq> []
     \<and> successCount b + length calls = successThreshold (config b)
     \<and> (\<forall>(t, fn)\<in>set calls.
           \<forall>w. \<not> isl (fst (withTimeout fn (requestTimeout (config b)) w)))"
  have "case executes b w calls of
           (rs, b', w') \<Rightarrow>
             state b' = CLOSED \<and> failureCount b' = 0 \<and> successCount b' = 0
             \<and> config b' = config b"
    using h by (intro half_open_successes_close) blast+
  then show "case executes b w calls of
        (rs, b', w') \<Rightarrow> state b' = CLOSED \<and> failureCount b' = 0 \<and> successCount b' = 0"
    by (auto split: prod.splits)
qed

lemma lifecycle_half_open_failure:
  "state b = HALF_OPEN \<and> withTimeout fn (requestTimeout (config b)) w = (Inl e, elapsed, w') \<longrightarrow>
     (case execute b now fn w of
        (r, b', w'') \<Rightarrow>
          r = Inl e \<and> w'' = w' \<and> state b' = OPEN \<and> successCount b' = 0
          \<and> nextAttemptTime b' = Some (now + int elapsed + int (resetTimeout (config b))))"
  by (simp add: execute_half_open_failure)

text \<open>
  Claim C1. A constructed breaker is \<open>CLOSED\<close> with both counters 0 and positive
  thresholds. While \<open>CLOSED\<close>, a failure increments \<open>failureCount\<close> and a success sets
  it to 0; the failure that brings it to \<open>failureThreshold\<close> opens the breaker with
  \<open>successCount = 0\<close> and \<open>nextAttemptTime\<close> the time of that failure plus
  \<open>resetTimeout\<close>. So \<open>failureThreshold\<close> consecutive failures from a \<open>CLOSED\<close> breaker
  with no failures counted leave it \<open>OPEN\<close>, and every call entered before
  \<open>nextAttemptTime\<close> is rejected with the breaker-open error, the breaker and the world
  of the operation untouched, whatever the operation is. A call entered at or after
  \<open>nextAttemptTime\<close> does what a \<open>HALF_OPEN\<close> breaker with \<open>successCount = 0\<close> does,
  and the operation is invoked. \<open>successThreshold\<close> consecutive successes, counted from
  that call, close the breaker with both counters 0; a failure while \<open>HALF_OPEN\<close> opens
  it again with a new \<open>nextAttemptTime\<close>.
\<close>

theorem circuit_breaker_lifecycle:
  "(state (new_CircuitBreaker p) = CLOSED \<and> failureCount (new_CircuitBreaker p) = 0
      \<and> successCount (new_CircuitBreaker p) = 0
      \<and> 0 < failureThreshold (config (new_CircuitBreaker p))
      \<and> 0 < successThreshold (config (new_CircuitBreaker p))
      \<and> 0 < resetTimeout (config (new_CircuitBreaker p)))
   \<and> (state b = CLOSED \<and> withTimeout fn (requestTimeout (config b)) w = (Inl e, elapsed, w') \<longrightarrow>
       (case execute b now fn w of
          (r, b', w'') \<Rightarrow>
            r = Inl e \<and> w'' = w' \<and> failureCount b' = failureCount b + 1
            \<and> (if failureThreshold (config b) \<le> failureCount b + 1
                then state b' = OPEN \<and> successCount b' = 0
                     \<and> nextAttemptTime b' =
                         Some (now + int elapsed + int (resetTimeout (config b)))
                else state b' = CLOSED)))
   \<and> (state b = CLOSED \<and> withTimeout fn (requestTimeout (config b)) w = (Inr v, elapsed, w') \<longrightarrow>
       (case execute b now fn w of
          (r, b', w'') \<Rightarrow> r = Inr v \<and> w'' = w' \<and> state b' = CLOSED \<and> failureCount b' = 0))
   \<and> (state b = CLOSED \<and> failureCount b = 0 \<and> calls \<noteq> []
       \<and> length calls = failureThreshold (config b)
       \<and> (\<forall>(t, fn)\<in>set calls. \<forall>w. isl (fst (withTimeout fn (requestTimeout (config b)) w))) \<longrightarrow>
       (case executes b w calls of
          (rs, b', w') \<Rightarrow>
            state b' = OPEN \<and> successCount b' = 0
            \<and> (\<exists>t. lastFailureTime b' = Some t
                   \<and> nextAttemptTime b' = Some (t + int (resetTimeout (config b)))
                   \<and> (\<forall>now fn. now < t + int (resetTimeout (config b)) \<longrightarrow>
                         execute b' now fn w' =
                           (Inl (CircuitBreakerOpenError ''Circuit breaker is OPEN''), b', w')))))
   \<and> (state b = OPEN \<and> nextAttemptTime b = Some t \<and> now < t \<longrightarrow>
       execute b now fn w = (Inl (CircuitBreakerOpenError ''Circuit breaker is OPEN''), b, w))
   \<and> (state b = OPEN \<and> nextAttemptTime b = Some t \<and> t \<le> now \<longrightarrow>
       execute b now fn w = execute (transitionToHalfOpen b) now fn w
       \<and> state (transitionToHalfOpen b) = HALF_OPEN
       \<and> successCount (transitionToHalfOpen b) = 0
       \<and> snd (snd (execute b now fn w)) = snd (fn w))
   \<and> (state b = OPEN \<and> nextAttemptTime b = Some t \<and> t \<le> now
       \<and> Suc (length calls) = successThreshold (config b)
       \<and> (\<forall>(t, fn)\<in>set ((now, fn) # calls).
             \<forall>w. \<not> isl (fst (withTimeout fn (requestTimeout (config b)) w))) \<longrightarrow>
       (case executes b w ((now, fn) # calls) of
          (rs, b', w') \<Rightarrow> state b' = CLOSED \<and> failureCount b' = 0 \<and> successCount b' = 0))
   \<and> (state b = HALF_OPEN \<and> calls \<noteq> []
       \<and> successCount b + length calls = successThreshold (config b)
       \<and> (\<forall>(t, fn)\<in>set calls.
             \<forall>w. \<not> isl (fst (withTimeout fn (requestTimeout (config b)) w))) \<longrightarrow>
       (case executes b w calls of
          (rs, b', w') \<Rightarrow> state b' = CLOSED \<and> failureCount b' = 0 \<and> successCount b' = 0))
   \<and> (state b = HALF_OPEN \<and> withTimeout fn (requestTimeout (config b)) w = (Inl e, elapsed, w') \<longrightarrow>
       (case execute b now fn w of
          (r, b', w'') \<Rightarrow>
            r = Inl e \<and> w'' = w' \<and> state b' = OPEN \<and> successCount b' = 0
            \<and> nextAttemptTime b' = Some (now + int elapsed + int (resetTimeout (config b)))))"
  by (intro conjI new_CircuitBreaker_ready [THEN conjunct1]
        new_CircuitBreaker_ready [THEN conjunct2, THEN conjunct1]
        new_CircuitBreaker_ready [THEN conjunct2, THEN conjunct2, THEN conjunct1]
        new_CircuitBreaker_ready [THEN conjunct2, THEN conjunct2, THEN conjunct2, THEN conjunct1]
        new_CircuitBreaker_ready [THEN conjunct2, THEN conjunct2, THEN conjunct2, THEN conjunct2, THEN conjunct1]
        new_CircuitBreaker_ready [THEN conjunct2, THEN conjunct2, THEN conjunct2, THEN conjunct2, THEN conjunct2]
        lifecycle_closed_failure lifecycle_closed_success lifecycle_open_after_threshold
        lifecycle_rejected lifecycle_half_open_entered lifecycle_closed_after_successes
        lifecycle_half_open_successes lifecycle_half_open_failure)

lemmas test_defs =
  test_breaker_def failing_fn_def succeeding_fn_def new_CircuitBreaker_def or_default_def
  withTimeout_def

text \<open>
  The scenario of the specification on the breaker of the tests: three failures open it,
  a fourth call 30 ms in is rejected, a failure after the reset limit reopens it, and
  two successes after the reset limit close it.
\<close>

theorem circuit_breaker_lifecycle_witness:
  "state test_breaker = CLOSED \<and> failureCount test_breaker = 0
   \<and> failureThreshold (config test_breaker) = 3
   \<and> executes test_breaker 0 [(0, failing_fn), (10, failing_fn), (20, failing_fn)] =
       ([Inl (Error ''Test error''), Inl (Error ''Test error''), Inl (Error ''Test error'')],
        \<lparr>state = OPEN, failureCount = 3, successCount = 0, lastFailureTime = Some 25,
        lastSuccessTime = None, nextAttemptTime = Some 1025,
        breaker_stats =
          \<lparr>stats_state = OPEN, stats_failureCount = 3, stats_successCount = 0,
           stats_lastFailureTime = Some 25, stats_lastSuccessTime = None,
           totalRequests = 3, totalFailures = 3, totalSuccesses = 0\<rparr>,
        config =
          \<lparr>failureThreshold = 3, resetTimeout = 1000, successThreshold = 2,
           requestTimeout = 5000, monitoringEnabled = False\<rparr>\<rparr>, 3)
   \<and> execute \<lparr>state = OPEN, failureCount = 3, successCount = 0, lastFailureTime = Some 25,
        lastSuccessTime = None, nextAttemptTime = Some 1025,
        breaker_stats =
          \<lparr>stats_state = OPEN, stats_failureCount = 3, stats_successCount = 0,
           stats_lastFailureTime = Some 25, stats_lastSuccessTime = None,
           totalRequests = 3, totalFailures = 3, totalSuccesses = 0\<rparr>,
        config =
          \<lparr>failureThreshold = 3, resetTimeout = 1000, successThreshold = 2,
           requestTimeout = 5000, monitoringEnabled = False\<rparr>\<rparr> 30 succeeding_fn 3 =
       (Inl (CircuitBreakerOpenError ''Circuit breaker is OPEN''), \<lparr>state = OPEN, failureCount = 3, successCount = 0, lastFailureTime = Some 25,
        lastSuccessTime = None, nextAttemptTime = Some 1025,
        breaker_stats =
          \<lparr>stats_state = OPEN, stats_failureCount = 3, stats_successCount = 0,
           stats_lastFailureTime = Some 25, stats_lastSuccessTime = None,
           totalRequests = 3, totalFailures = 3, totalSuccesses = 0\<rparr>,
        config =
          \<lparr>failureThreshold = 3, resetTimeout = 1000, successThreshold = 2,
           requestTimeout = 5000, monitoringEnabled = False\<rparr>\<rparr>, 3)
   \<and> (case execute \<lparr>state = OPEN, failureCount = 3, successCount = 0, lastFailureTime = Some 25,
        lastSuccessTime = None, nextAttemptTime = Some 1025,
        breaker_stats =
          \<lparr>stats_state = OPEN, stats_failureCount = 3, stats_successCount = 0,
           stats_lastFailureTime = Some 25, stats_lastSuccessTime = None,
           totalRequests = 3, totalFailures = 3, totalSuccesses = 0\<rparr>,
        config =
          \<lparr>failureThreshold = 3, resetTimeout = 1000, successThreshold = 2,
           requestTimeout = 5000, monitoringEnabled = False\<rparr>\<rparr> 1130 failing_fn 3 of
         (r, b', w') \<Rightarrow>
           r = Inl (Error ''Test error'') \<and> state b' = OPEN
           \<and> nextAttemptTime b' = Some 2135 \<and> w' = 4)
   \<and> (case executes \<lparr>state = OPEN, failureCount = 3, successCount = 0, lastFailureTime = Some 25,
        lastSuccessTime = None, nextAttemptTime = Some 1025,
        breaker_stats =
          \<lparr>stats_state = OPEN, stats_failureCount = 3, stats_successCount = 0,
           stats_lastFailureTime = Some 25, stats_lastSuccessTime = None,
           totalRequests = 3, totalFailures = 3, totalSuccesses = 0\<rparr>,
        config =
          \<lparr>failureThreshold = 3, resetTimeout = 1000, successThreshold = 2,
           requestTimeout = 5000, monitoringEnabled = False\<rparr>\<rparr> 3 [(1130, succeeding_fn), (1140, succeeding_fn)] of
         (rs, b', w') \<Rightarrow>
           rs = [Inr ''success'', Inr ''success''] \<and> state b' = CLOSED
           \<and> failureCount b' = 0 \<and> successCount b' = 0 \<and> w' = 5)"
  using circuit_breaker_lifecycle
    [of _ test_breaker failing_fn 0 "Error ''Test error''" 5 1 0 "''success''"
        "[(0, failing_fn), (10, failing_fn), (20, failing_fn)]" 0]
    circuit_breaker_lifecycle
    [of _ "\<lparr>state = OPEN, failureCount = 3, successCount = 0, lastFailureTime = Some 25,
        lastSuccessTime = None, nextAttemptTime = Some 1025,
        breaker_stats =
          \<lparr>stats_state = OPEN, stats_failureCount = 3, stats_successCount = 0,
           stats_lastFailureTime = Some 25, stats_lastSuccessTime = None,
           totalRequests = 3, totalFailures = 3, totalSuccesses = 0\<rparr>,
        config =
          \<lparr>failureThreshold = 3, resetTimeout = 1000, successThreshold = 2,
           requestTimeout = 5000, monitoringEnabled = False\<rparr>\<rparr>" succeeding_fn 3 "Error ''Test error''" 5 4 30 "''success''"
        "[(1140, succeeding_fn)]" 1025]
    circuit_breaker_lifecycle
    [of _ "\<lparr>state = OPEN, failureCount = 3, successCount = 0, lastFailureTime = Some 25,
        lastSuccessTime = None, nextAttemptTime = Some 1025,
        breaker_stats =
          \<lparr>stats_state = OPEN, stats_failureCount = 3, stats_successCount = 0,
           stats_lastFailureTime = Some 25, stats_lastSuccessTime = None,
           totalRequests = 3, totalFailures = 3, totalSuccesses = 0\<rparr>,
        config =
          \<lparr>failureThreshold = 3, resetTimeout = 1000, successThreshold = 2,
           requestTimeout = 5000, monitoringEnabled = False\<rparr>\<rparr>" succeeding_fn 3 "Error ''Test error''" 5 4 1130 "''success''"
        "[(1140, succeeding_fn)]" 1025]
  by (simp add: test_defs breaker_defs)

text \<open>
  Claim C8 (as amended). A call that is rejected while the breaker is \<open>OPEN\<close> leaves the
  breaker, and with it \<open>totalRequests\<close>, \<open>totalFailures\<close> and \<open>totalSuccesses\<close>, as they
  were. Every other call increments \<open>totalRequests\<close> by one and exactly one of
  \<open>totalSuccesses\<close> (when it returns a value) and \<open>totalFailures\<close> (when it throws) by
  one, whatever the state of the breaker.
\<close>

theorem circuit_breaker_totals:
  "(state b = OPEN \<and> now < (case nextAttemptTime b of None \<Rightarrow> 0 | Some t \<Rightarrow> t) \<longrightarrow>
      execute b now fn w = (Inl (CircuitBreakerOpenError ''Circuit breaker is OPEN''), b, w)
      \<and> breaker_stats (fst (snd (execute b now fn w))) = breaker_stats b)
   \<and> (\<not> (state b = OPEN \<and> now < (case nextAttemptTime b of None \<Rightarrow> 0 | Some t \<Rightarrow> t)) \<longrightarrow>
      (case execute b now fn w of
         (r, b', w') \<Rightarrow>
           totalRequests (breaker_stats b') = totalRequests (breaker_stats b) + 1
           \<and> (case r of
                 Inr v \<Rightarrow>
                   totalSuccesses (breaker_stats b') = totalSuccesses (breaker_stats b) + 1
                   \<and> totalFailures (breaker_stats b') = totalFailures (breaker_stats b)
               | Inl e \<Rightarrow>
                   totalFailures (breaker_stats b') = totalFailures (breaker_stats b) + 1
                   \<and> totalSuccesses (breaker_stats b') = totalSuccesses (breaker_stats b))))"
proof (intro conjI impI)
  assume "state b = OPEN \<and> now < (case nextAttemptTime b of None \<Rightarrow> 0 | Some t \<Rightarrow> t)"
  then show "execute b now fn w =
      (Inl (CircuitBreakerOpenError ''Circuit breaker is OPEN''), b, w)"
    by (simp add: execute_def)
  then show "breaker_stats (fst (snd (execute b now fn w))) = breaker_stats b"
    by simp
next
  assume run: "\<not> (state b = OPEN \<and> now < (case nextAttemptTime b of None \<Rightarrow> 0 | Some t \<Rightarrow> t))"
  obtain r elapsed w' where
    race: "withTimeout fn
             (requestTimeout (config (if state b = OPEN then transitionToHalfOpen b else b))) w
           = (r, elapsed, w')"
    by (cases "withTimeout fn
             (requestTimeout (config (if state b = OPEN then transitionToHalfOpen b else b))) w")
       auto
  show "case execute b now fn w of
         (r, b', w') \<Rightarrow>
           totalRequests (breaker_stats b') = totalRequests (breaker_stats b) + 1
           \<and> (case r of
                 Inr v \<Rightarrow>
                   totalSuccesses (breaker_stats b') = totalSuccesses (breaker_stats b) + 1
                   \<and> totalFailures (breaker_stats b') = totalFailures (breaker_stats b)
               | Inl e \<Rightarrow>
                   totalFailures (breaker_stats b') = totalFailures (breaker_stats b) + 1
                   \<and> totalSuccesses (breaker_stats b') = totalSuccesses (breaker_stats b))"
  proof (cases r)
    case (Inl e)
    then show ?thesis
      using run race by (simp add: breaker_defs)
  next
    case (Inr v)
    then show ?thesis
      using run race by (simp add: breaker_defs)
  qed
qed

theorem circuit_breaker_totals_witness:
  "execute \<lparr>state = OPEN, failureCount = 3, successCount = 0, lastFailureTime = Some 25,
        lastSuccessTime = None, nextAttemptTime = Some 1025,
        breaker_stats =
          \<lparr>stats_state = OPEN, stats_failureCount = 3, stats_successCount = 0,
           stats_lastFailureTime = Some 25, stats_lastSuccessTime = None,
           totalRequests = 3, totalFailures = 3, totalSuccesses = 0\<rparr>,
        config =
          \<lparr>failureThreshold = 3, resetTimeout = 1000, successThreshold = 2,
           requestTimeout = 5000, monitoringEnabled = False\<rparr>\<rparr> 30 succeeding_fn 3 =
       (Inl (CircuitBreakerOpenError ''Circuit breaker is OPEN''), \<lparr>state = OPEN, failureCount = 3, successCount = 0, lastFailureTime = Some 25,
        lastSuccessTime = None, nextAttemptTime = Some 1025,
        breaker_stats =
          \<lparr>stats_state = OPEN, stats_failureCount = 3, stats_successCount = 0,
           stats_lastFailureTime = Some 25, stats_lastSuccessTime = None,
           totalRequests = 3, totalFailures = 3, totalSuccesses = 0\<rparr>,
        config =
          \<lparr>failureThreshold = 3, resetTimeout = 1000, successThreshold = 2,
           requestTimeout = 5000, monitoringEnabled = False\<rparr>\<rparr>, 3)
   \<and> totalRequests (breaker_stats (fst (snd (execute \<lparr>state = OPEN, failureCount = 3, successCount = 0, lastFailureTime = Some 25,
        lastSuccessTime = None, nextAttemptTime = Some 1025,
        breaker_stats =
          \<lparr>stats_state = OPEN, stats_failureCount = 3, stats_successCount = 0,
           stats_lastFailureTime = Some 25, stats_lastSuccessTime = None,
           totalRequests = 3, totalFailures = 3, totalSuccesses = 0\<rparr>,
        config =
          \<lparr>failureThreshold = 3, resetTimeout = 1000, successThreshold = 2,
           requestTimeout = 5000, monitoringEnabled = False\<rparr>\<rparr> 30 succeeding_fn 3)))) = 3
   \<and> (case execute \<lparr>state = OPEN, failureCount = 3, successCount = 0, lastFailureTime = Some 25,
        lastSuccessTime = None, nextAttemptTime = Some 1025,
        breaker_stats =
          \<lparr>stats_state = OPEN, stats_failureCount = 3, stats_successCount = 0,
           stats_lastFailureTime = Some 25, stats_lastSuccessTime = None,
           totalRequests = 3, totalFailures = 3, totalSuccesses = 0\<rparr>,
        config =
          \<lparr>failureThreshold = 3, resetTimeout = 1000, successThreshold = 2,
           requestTimeout = 5000, monitoringEnabled = False\<rparr>\<rparr> 1130 succeeding_fn 3 of
         (r, b', w') \<Rightarrow>
           r = Inr ''success'' \<and> totalRequests (breaker_stats b') = 4
           \<and> totalSuccesses (breaker_stats b') = 1 \<and> totalFailures (breaker_stats b') = 3)
   \<and> (case execute test_breaker 0 failing_fn 0 of
         (r, b', w') \<Rightarrow>
           r = Inl (Error ''Test error'') \<and> totalRequests (breaker_stats b') = 1
           \<and> totalSuccesses (breaker_stats b') = 0 \<and> totalFailures (breaker_stats b') = 1)"
  using circuit_breaker_totals [of "\<lparr>state = OPEN, failureCount = 3, successCount = 0, lastFailureTime = Some 25,
        lastSuccessTime = None, nextAttemptTime = Some 1025,
        breaker_stats =
          \<lparr>stats_state = OPEN, stats_failureCount = 3, stats_successCount = 0,
           stats_lastFailureTime = Some 25, stats_lastSuccessTime = None,
           totalRequests = 3, totalFailures = 3, totalSuccesses = 0\<rparr>,
        config =
          \<lparr>failureThreshold = 3, resetTimeout = 1000, successThreshold = 2,
           requestTimeout = 5000, monitoringEnabled = False\<rparr>\<rparr>" 30 succeeding_fn 3]
    circuit_breaker_totals [of "\<lparr>state = OPEN, failureCount = 3, successCount = 0, lastFailureTime = Some 25,
        lastSuccessTime = None, nextAttemptTime = Some 1025,
        breaker_stats =
          \<lparr>stats_state = OPEN, stats_failureCount = 3, stats_successCount = 0,
           stats_lastFailureTime = Some 25, stats_lastSuccessTime = None,
           totalRequests = 3, totalFailures = 3, totalSuccesses = 0\<rparr>,
        config =
          \<lparr>failureThreshold = 3, resetTimeout = 1000, successThreshold = 2,
           requestTimeout = 5000, monitoringEnabled = False\<rparr>\<rparr>" 1130 succeeding_fn 3]
    circuit_breaker_totals [of test_breaker 0 failing_fn 0]
  by (simp add: test_defs breaker_defs)

text \<open>
  Four calls to \<open>execute\<close>, the fourth rejected: \<open>totalRequests\<close> is 3, not 4, and the
  operation ran three times.
\<close>

theorem circuit_breaker_rejected_call_not_counted:
  "(case executes test_breaker 0
           [(0, failing_fn), (10, failing_fn), (20, failing_fn), (30, failing_fn)] of
      (rs, b', w') \<Rightarrow>
        rs ! 3 = Inl (CircuitBreakerOpenError ''Circuit breaker is OPEN'')
        \<and> totalRequests (breaker_stats b') = 3 \<and> totalFailures (breaker_stats b') = 3
        \<and> totalSuccesses (breaker_stats b') = 0 \<and> w' = 3)"
  by (simp add: test_defs breaker_defs)

section \<open>Graceful shutdown: every handler runs\<close>

lemma run_handlers_snoc:
  "run_handlers dflt signal (hs @ [h]) w =
     (case run_handlers dflt signal hs w of
        (rs, w') \<Rightarrow>
          (case run_handler dflt signal h w' of (r, w'') \<Rightarrow> (rs @ [r], w'')))"
  by (induction hs arbitrary: w) (auto split: prod.splits)

lemma result_name_run_handler: "result_name (fst (run_handler dflt signal h w)) = name h"
  by (simp add: run_handler_def Let_def split: prod.splits promise.splits)

lemma snd_run_handler: "snd (run_handler dflt signal h w) = snd (handler h signal w)"
  by (simp add: run_handler_def Let_def split: prod.splits promise.splits)

lemma names_run_handlers:
  "map result_name (fst (run_handlers dflt signal hs w)) = map name hs"
proof (induction hs arbitrary: w)
  case Nil
  then show ?case by simp
next
  case (Cons h hs)
  obtain r w' where r: "run_handler dflt signal h w = (r, w')"
    by (cases "run_handler dflt signal h w")
  then have "result_name r = name h"
    using result_name_run_handler [of dflt signal h w] by simp
  then show ?case
    using r Cons.IH [of w'] by (auto split: prod.splits)
qed

lemma world_run_handlers:
  "snd (run_handlers dflt signal hs w) = fold (\<lambda>h w. snd (handler h signal w)) hs w"
proof (induction hs arbitrary: w)
  case Nil
  then show ?case by simp
next
  case (Cons h hs)
  obtain r w' where r: "run_handler dflt signal h w = (r, w')"
    by (cases "run_handler dflt signal h w")
  then have "w' = snd (handler h signal w)"
    using snd_run_handler [of dflt signal h w] by simp
  then show ?case
    using r Cons.IH [of w'] by (auto split: prod.splits)
qed

lemma run_handler_outcome:
  "handler h signal w = (p, w') \<Longrightarrow>
   run_handler dflt signal h w =
     ((case p of
         Resolves d u \<Rightarrow>
           if d \<le> timeout_of dflt h
           then \<lparr>result_name = name h, result_success = True,
                 result_duration = d, result_error = None\<rparr>
           else \<lparr>result_name = name h, result_success = False,
                 result_duration = timeout_of dflt h, result_error = Some ''Timeout''\<rparr>
       | Rejects d msg \<Rightarrow>
           if d \<le> timeout_of dflt h
           then \<lparr>result_name = name h, result_success = False,
                 result_duration = d, result_error = Some msg\<rparr>
           else \<lparr>result_name = name h, result_success = False,
                 result_duration = timeout_of dflt h, result_error = Some ''Timeout''\<rparr>
       | Pending \<Rightarrow>
           \<lparr>result_name = name h, result_success = False,
            result_duration = timeout_of dflt h, result_error = Some ''Timeout''\<rparr>), w')"
  by (simp add: run_handler_def Let_def split: promise.splits)

lemma run_handlers_nth:
  "i < length hs \<Longrightarrow>
   fst (run_handlers dflt signal hs w) ! i =
     fst (run_handler dflt signal (hs ! i)
            (fold (\<lambda>h w. snd (handler h signal w)) (take i hs) w))"
proof (induction hs arbitrary: w i)
  case Nil
  then show ?case by simp
next
  case (Cons h hs)
  obtain r w' where r: "run_handler dflt signal h w = (r, w')"
    by (cases "run_handler dflt signal h w")
  then have w': "w' = snd (handler h signal w)"
    using snd_run_handler [of dflt signal h w] by simp
  show ?case
  proof (cases i)
    case 0
    then show ?thesis using r by (auto split: prod.splits)
  next
    case (Suc j)
    then have "j < length hs" using Cons.prems by simp
    then have "fst (run_handlers dflt signal hs w') ! j =
        fst (run_handler dflt signal (hs ! j)
               (fold (\<lambda>h w. snd (handler h signal w)) (take j hs) w'))"
      by (rule Cons.IH)
    then show ?thesis using Suc r w' by (auto split: prod.splits)
  qed
qed

lemma run_handler_success_iff:
  "result_success (fst (run_handler dflt signal h w)) \<longleftrightarrow>
     (\<exists>d u. fst (handler h signal w) = Resolves d u \<and> d \<le> timeout_of dflt h)"
  by (auto simp: run_handler_def Let_def split: prod.splits promise.splits)

lemma run_handler_error:
  "result_error (fst (run_handler dflt signal h w)) =
     (case fst (handler h signal w) of
        Resolves d u \<Rightarrow> if d \<le> timeout_of dflt h then None else Some ''Timeout''
      | Rejects d msg \<Rightarrow> if d \<le> timeout_of dflt h then Some msg else Some ''Timeout''
      | Pending \<Rightarrow> Some ''Timeout'')"
  by (auto simp: run_handler_def Let_def split: prod.splits promise.splits)

lemma length_run_handlers: "length (fst (run_handlers dflt signal hs w)) = length hs"
  using names_run_handlers [of dflt signal hs w] by (metis length_map)

text \<open>
  Claim C9 (as amended). The manager's default timeout is 30000 ms and \<open>register\<close>
  appends. A handler is raced against its own \<open>timeout\<close>, and against the default when
  that is missing or \<open>0\<close>. \<open>executeHandlers\<close> returns exactly one entry per registered
  handler, in registration order and carrying its name; entry \<open>i\<close> is the outcome of
  handler \<open>i\<close> run on the world left by the handlers before it (all of them, failed or
  not); an entry is a success iff the handler resolved within its limit, and otherwise
  records \<open>Timeout\<close> or the handler's own error. A handler registered last runs after all
  the others and adds the last entry, whatever the others did.
\<close>

theorem shutdown_handlers_all_run:
  "defaultTimeout (new_ShutdownManager :: 'w ShutdownManager) = 30000
   \<and> handlers (register m h) = handlers m @ [h]
   \<and> defaultTimeout (register m h) = defaultTimeout m
   \<and> (timeout h = None \<or> timeout h = Some 0 \<longrightarrow> timeout_of (defaultTimeout m) h = defaultTimeout m)
   \<and> (\<forall>t. timeout h = Some t \<and> 0 < t \<longrightarrow> timeout_of (defaultTimeout m) h = t)
   \<and> length (fst (executeHandlers m signal w)) = length (handlers m)
   \<and> map result_name (fst (executeHandlers m signal w)) = map name (handlers m)
   \<and> snd (executeHandlers m signal w) = fold (\<lambda>h w. snd (handler h signal w)) (handlers m) w
   \<and> (\<forall>i < length (handlers m).
        fst (executeHandlers m signal w) ! i =
          fst (run_handler (defaultTimeout m) signal (handlers m ! i)
                 (fold (\<lambda>h w. snd (handler h signal w)) (take i (handlers m)) w)))
   \<and> (result_success (fst (run_handler (defaultTimeout m) signal h w)) \<longleftrightarrow>
        (\<exists>d u. fst (handler h signal w) = Resolves d u \<and> d \<le> timeout_of (defaultTimeout m) h))
   \<and> result_error (fst (run_handler (defaultTimeout m) signal h w)) =
        (case fst (handler h signal w) of
           Resolves d u \<Rightarrow> if d \<le> timeout_of (defaultTimeout m) h then None else Some ''Timeout''
         | Rejects d msg \<Rightarrow>
             if d \<le> timeout_of (defaultTimeout m) h then Some msg else Some ''Timeout''
         | Pending \<Rightarrow> Some ''Timeout'')
   \<and> executeHandlers (register m h) signal w =
        (case executeHandlers m signal w of
           (rs, w') \<Rightarrow>
             (case run_handler (defaultTimeout m) signal h w' of
                (r, w'') \<Rightarrow> (rs @ [r], w'')))"
proof (intro conjI allI impI)
  show "defaultTimeout (new_ShutdownManager :: 'w ShutdownManager) = 30000"
    by (simp add: new_ShutdownManager_def)
  show "handlers (register m h) = handlers m @ [h]"
    by (simp add: register_def)
  show "defaultTimeout (register m h) = defaultTimeout m"
    by (simp add: register_def)
  show "timeout_of (defaultTimeout m) h = defaultTimeout m"
    if "timeout h = None \<or> timeout h = Some 0"
    using that by (auto simp: timeout_of_def)
  show "timeout_of (defaultTimeout m) h = t" if "timeout h = Some t \<and> 0 < t" for t
    using that by (simp add: timeout_of_def)
  show "length (fst (executeHandlers m signal w)) = length (handlers m)"
    by (simp add: executeHandlers_def length_run_handlers)
  show "map result_name (fst (executeHandlers m signal w)) = map name (handlers m)"
    by (simp add: executeHandlers_def names_run_handlers)
  show "snd (executeHandlers m signal w) =
      fold (\<lambda>h w. snd (handler h signal w)) (handlers m) w"
    by (simp add: executeHandlers_def world_run_handlers)
  show "fst (executeHandlers m signal w) ! i =
          fst (run_handler (defaultTimeout m) signal (handlers m ! i)
                 (fold (\<lambda>h w. snd (handler h signal w)) (take i (handlers m)) w))"
    if "i < length (handlers m)" for i
    using that by (simp add: executeHandlers_def run_handlers_nth)
  show "result_success (fst (run_handler (defaultTimeout m) signal h w)) \<longleftrightarrow>
        (\<exists>d u. fst (handler h signal w) = Resolves d u \<and> d \<le> timeout_of (defaultTimeout m) h)"
    by (rule run_handler_success_iff)
  show "result_error (fst (run_handler (defaultTimeout m) signal h w)) =
        (case fst (handler h signal w) of
           Resolves d u \<Rightarrow> if d \<le> timeout_of (defaultTimeout m) h then None else Some ''Timeout''
         | Rejects d msg \<Rightarrow>
             if d \<le> timeout_of (defaultTimeout m) h then Some msg else Some ''Timeout''
         | Pending \<Rightarrow> Some ''Timeout'')"
    by (rule run_handler_error)
  show "executeHandlers (register m h) signal w =
        (case executeHandlers m signal w of
           (rs, w') \<Rightarrow>
             (case run_handler (defaultTimeout m) signal h w' of
                (r, w'') \<Rightarrow> (rs @ [r], w'')))"
    by (simp add: executeHandlers_def register_def run_handlers_snoc)
qed

text \<open>
  Four handlers: the second never settles and the third rejects; the fourth still runs,
  and there are four entries in registration order.
\<close>

theorem shutdown_handlers_all_run_witness:
  "executeHandlers
     (register (register (register (register new_ShutdownManager
            \<lparr>name = ''database'', handler = (\<lambda>s w. (Resolves 5 (), w @ [''database''])), timeout = None\<rparr>)
            \<lparr>name = ''cache'', handler = (\<lambda>s w. (Pending, w @ [''cache''])), timeout = Some 100\<rparr>)
            \<lparr>name = ''metrics'', handler = (\<lambda>s w. (Rejects 7 ''boom'', w @ [''metrics''])), timeout = Some 1000\<rparr>)
        \<lparr>name = ''logs'', handler = (\<lambda>s w. (Resolves 9 (), w @ [''logs''])), timeout = Some 50\<rparr>) ''SIGTERM'' [] =
     ([\<lparr>result_name = ''database'', result_success = True, result_duration = 5,
         result_error = None\<rparr>,
       \<lparr>result_name = ''cache'', result_success = False, result_duration = 100,
         result_error = Some ''Timeout''\<rparr>,
       \<lparr>result_name = ''metrics'', result_success = False, result_duration = 7,
         result_error = Some ''boom''\<rparr>,
       \<lparr>result_name = ''logs'', result_success = True, result_duration = 9,
         result_error = None\<rparr>],
      [''database'', ''cache'', ''metrics'', ''logs''])
   \<and> timeout_of 30000 (\<lparr>name = ''database'', handler = (\<lambda>s w. (Resolves 5 (), w @ [''database''])), timeout = None\<rparr> :: string list ShutdownHandler) = 30000
   \<and> timeout_of 30000 (\<lparr>name = ''cache'', handler = (\<lambda>s w. (Pending, w @ [''cache''])), timeout = Some 100\<rparr> :: string list ShutdownHandler) = 100"
  using shutdown_handlers_all_run
    [of "(register (register (register new_ShutdownManager
            \<lparr>name = ''database'', handler = (\<lambda>s w. (Resolves 5 (), w @ [''database''])), timeout = None\<rparr>)
            \<lparr>name = ''cache'', handler = (\<lambda>s w. (Pending, w @ [''cache''])), timeout = Some 100\<rparr>)
            \<lparr>name = ''metrics'', handler = (\<lambda>s w. (Rejects 7 ''boom'', w @ [''metrics''])), timeout = Some 1000\<rparr>)"
        "\<lparr>name = ''logs'', handler = (\<lambda>s w. (Resolves 9 (), w @ [''logs''])), timeout = Some 50\<rparr>" "''SIGTERM''" "[]"]
    shutdown_handlers_all_run
    [of "new_ShutdownManager" "\<lparr>name = ''database'', handler = (\<lambda>s w. (Resolves 5 (), w @ [''database''])), timeout = None\<rparr> :: string list ShutdownHandler" "''SIGTERM''" "[]"]
    shutdown_handlers_all_run
    [of "new_ShutdownManager" "\<lparr>name = ''cache'', handler = (\<lambda>s w. (Pending, w @ [''cache''])), timeout = Some 100\<rparr> :: string list ShutdownHandler" "''SIGTERM''" "[]"]
  by (simp add: executeHandlers_def register_def new_ShutdownManager_def run_handler_def
        timeout_of_def Let_def)

text \<open>
  A handler registered with \<open>timeout: 0\<close> that takes 10 ms is raced against 30000 ms, not
  against its own 0 ms, and is recorded as a success.
\<close>

theorem shutdown_zero_timeout_counterexample:
  "timeout_of (defaultTimeout (new_ShutdownManager :: nat ShutdownManager))
     \<lparr>name = ''slow'', handler = (\<lambda>s w. (Resolves 10 (), Suc w)), timeout = Some 0\<rparr> = 30000
   \<and> executeHandlers
       (register new_ShutdownManager
          \<lparr>name = ''slow'', handler = (\<lambda>s w. (Resolves 10 (), Suc w)), timeout = Some 0\<rparr>)
       ''SIGTERM'' (0::nat) =
     ([\<lparr>result_name = ''slow'', result_success = True, result_duration = 10,
         result_error = None\<rparr>], 1)"
  by (simp add: executeHandlers_def register_def new_ShutdownManager_def run_handler_def
        timeout_of_def Let_def)

end
